theory Spec2Isabelle
  imports Complex_Main
begin

section \<open>Data model (src/lib/db.ts)\<close>

text \<open>
  The outbox is the Dexie table \<open>syncQueue\<close> with schema \<open>'++id, timestamp, tableName'\<close>:
  an auto-incremented primary key and a secondary index on \<open>timestamp\<close>. A stored row
  always carries its key, so the optional \<open>id?: number\<close> of the interface is the field
  \<open>qid\<close> here. \<open>data?: any\<close> is an optional payload of an arbitrary type \<open>'d\<close>;
  \<open>timestamp: Date\<close> is the wall-clock reading in milliseconds.
\<close>

datatype operation = Create | Update | Delete

record 'd SyncQueue =
  qid :: nat
  tableName :: string
  operation :: operation
  recordId :: string
  data :: "'d option"
  timestamp :: int
  attempts :: nat

text \<open>
  A JavaScript number as far as \<open>createExpense\<close> inspects it: a finite value, an infinity
  or NaN. A parameter of the AI action (\<open>Record<string, any>\<close>) is any JavaScript
  value.
\<close>

datatype jsnumber = Finite rat | PosInf | NegInf | NaN

datatype jsvalue = JNum jsnumber | JStr string | JBool bool | JUndefined | JNull | JObject

text \<open>The interface \<open>Expense\<close> of src/lib/ai-actions/expenses.ts, as a stored row.\<close>

record Expense =
  eid :: nat
  amount :: jsnumber
  category :: string
  description :: "string option"
  date :: int
  createdAt :: int
  owner_id :: string
  synced :: bool

text \<open>
  The class \<open>LifeOSDatabase\<close> with its ten tables. A table is its rows in primary-key
  order; the two tables that a function modelled here adds to (schema \<open>++id\<close>) also
  carry their key generator, which hands out keys from 1 and never reuses one. The rows of
  the tables whose fields no such function reads are left abstract; the table \<open>notes\<close>
  is the field \<open>notes_table\<close>.
\<close>

typedecl Task
typedecl Habit
typedecl Note
typedecl StudySession
typedecl Subject
typedecl Topic
typedecl Document
typedecl AIQueue

record 'd LifeOSDatabase =
  tasks :: "Task list"
  habits :: "Habit list"
  expenses :: "Expense list"
  expensesKey :: nat
  notes_table :: "Note list"
  studySessions :: "StudySession list"
  subjects :: "Subject list"
  topics :: "Topic list"
  documents :: "Document list"
  syncQueue :: "'d SyncQueue list"
  syncQueueKey :: nat
  aiQueue :: "AIQueue list"

text \<open>The two private fields of the class \<open>SyncEngine\<close>.\<close>

record SyncEngine =
  isOnline :: bool
  isSyncing :: bool

section \<open>The environment: remote backend and storage failures\<close>

text \<open>
  \<open>syncItem\<close> sends one of two requests through the Supabase client:
  \<open>from(tableName).upsert(data)\<close> or \<open>from(tableName).delete().eq('id', recordId)\<close>.
\<close>

datatype 'd request = Upsert string "'d option" | DeleteEq string string

text \<open>The awaited local-store operations, each of which may reject.\<close>

datatype io_op =
    ReadQueue
  | AddEntry
  | DeleteSynced nat
  | UpdateAttempts nat
  | DeleteEvicted nat
  | AddExpense

datatype error = RemoteError | StoreError io_op

text \<open>
  What the code cannot decide is an input of the model: \<open>remote_throws item\<close> says whether
  the awaited remote call made for \<open>item\<close> throws, \<open>store_throws op\<close> whether the awaited
  local-store operation \<open>op\<close> throws. Within one drain pass every row is replayed at most
  once, so a function of the row describes every pattern of outcomes. \<open>syncItem\<close> discards
  the value a remote call resolves to, so a call that returns is a replay that succeeded as
  far as the engine can tell: it sees a failed replay only when the call throws.
\<close>

record 'd env =
  remote_throws :: "'d SyncQueue \<Rightarrow> bool"
  store_throws :: "io_op \<Rightarrow> bool"

text \<open>
  The state the functions act on: the engine's fields, the local database, and the log of
  remote calls completed so far, each with whether it returned (\<open>True\<close>) or threw.
\<close>

record 'd world =
  engine :: SyncEngine
  db :: "'d LifeOSDatabase"
  calls :: "('d request \<times> bool) list"

section \<open>Outbox table operations (Dexie)\<close>

definition queue_delete :: "nat \<Rightarrow> 'd SyncQueue list \<Rightarrow> 'd SyncQueue list" where
  "queue_delete k rows = filter (\<lambda>r. qid r \<noteq> k) rows"

definition queue_update_attempts :: "nat \<Rightarrow> nat \<Rightarrow> 'd SyncQueue list \<Rightarrow> 'd SyncQueue list" where
  "queue_update_attempts k n rows = map (\<lambda>r. if qid r = k then r\<lparr>attempts := n\<rparr> else r) rows"

text \<open>
  \<open>db.syncQueue.orderBy('timestamp').toArray()\<close>: the rows in the order of the
  \<open>timestamp\<close> index, rows of equal timestamp in primary-key order (a stable sort of the
  rows, which are kept in key order).
\<close>

definition queue_snapshot :: "'d LifeOSDatabase \<Rightarrow> 'd SyncQueue list" where
  "queue_snapshot d = sort_key timestamp (syncQueue d)"

text \<open>The database apart from the rows of the outbox: the entity tables and the key generators.\<close>

definition without_outbox :: "'d LifeOSDatabase \<Rightarrow> 'd LifeOSDatabase" where
  "without_outbox d = d\<lparr>syncQueue := []\<rparr>"

definition db_delete :: "nat \<Rightarrow> ('d, 'z) world_scheme \<Rightarrow> ('d, 'z) world_scheme" where
  "db_delete k w = w\<lparr>db := (db w)\<lparr>syncQueue := queue_delete k (syncQueue (db w))\<rparr>\<rparr>"

definition db_update_attempts ::
  "nat \<Rightarrow> nat \<Rightarrow> ('d, 'z) world_scheme \<Rightarrow> ('d, 'z) world_scheme" where
  "db_update_attempts k n w =
     w\<lparr>db := (db w)\<lparr>syncQueue := queue_update_attempts k n (syncQueue (db w))\<rparr>\<rparr>"

section \<open>The sync engine (src/lib/sync-engine.ts)\<close>

definition request_of :: "'d SyncQueue \<Rightarrow> 'd request" where
  "request_of item =
     (case operation item of
        Create \<Rightarrow> Upsert (tableName item) (data item)
      | Update \<Rightarrow> Upsert (tableName item) (data item)
      | Delete \<Rightarrow> DeleteEq (tableName item) (recordId item))"

text \<open>\<open>syncItem\<close>: one remote call, which returns or throws.\<close>

definition syncItem :: "'d env \<Rightarrow> 'd SyncQueue \<Rightarrow> 'd world \<Rightarrow> (error + unit) \<times> 'd world" where
  "syncItem ev item w =
     (if remote_throws ev item
      then (Inl RemoteError, w\<lparr>calls := calls w @ [(request_of item, False)]\<rparr>)
      else (Inr (), w\<lparr>calls := calls w @ [(request_of item, True)]\<rparr>))"

text \<open>
  The \<open>catch\<close> block of the loop body: write \<open>item.attempts + 1\<close>, then delete the row
  when \<open>item.attempts >= 5\<close>, where \<open>item\<close> is the row as read into the snapshot. An
  exception of either store operation leaves the loop.
\<close>

definition sync_catch :: "'d env \<Rightarrow> 'd SyncQueue \<Rightarrow> 'd world \<Rightarrow> (error + unit) \<times> 'd world" where
  "sync_catch ev item w =
     (if store_throws ev (UpdateAttempts (qid item))
      then (Inl (StoreError (UpdateAttempts (qid item))), w)
      else
        let w1 = db_update_attempts (qid item) (attempts item + 1) w in
        if attempts item \<ge> 5
        then (if store_throws ev (DeleteEvicted (qid item))
              then (Inl (StoreError (DeleteEvicted (qid item))), w1)
              else (Inr (), db_delete (qid item) w1))
        else (Inr (), w1))"

text \<open>
  The loop body: \<open>try { await syncItem(item); await delete(item.id) } catch { ... }\<close>.
  The delete after a successful replay is inside the \<open>try\<close>, so its failure also runs
  the \<open>catch\<close> block.
\<close>

definition sync_body :: "'d env \<Rightarrow> 'd SyncQueue \<Rightarrow> 'd world \<Rightarrow> (error + unit) \<times> 'd world" where
  "sync_body ev item w =
     (case syncItem ev item w of
        (Inl e, w1) \<Rightarrow> sync_catch ev item w1
      | (Inr u, w1) \<Rightarrow>
          if store_throws ev (DeleteSynced (qid item))
          then sync_catch ev item w1
          else (Inr (), db_delete (qid item) w1))"

text \<open>\<open>for (const item of queue)\<close>: an exception that leaves the body leaves the loop.\<close>

fun sync_loop :: "'d env \<Rightarrow> 'd SyncQueue list \<Rightarrow> 'd world \<Rightarrow> (error + unit) \<times> 'd world" where
  "sync_loop ev [] w = (Inr (), w)"
| "sync_loop ev (item # rest) w =
     (case sync_body ev item w of
        (Inl e, w1) \<Rightarrow> (Inl e, w1)
      | (Inr u, w1) \<Rightarrow> sync_loop ev rest w1)"

definition set_syncing :: "bool \<Rightarrow> ('d, 'z) world_scheme \<Rightarrow> ('d, 'z) world_scheme" where
  "set_syncing b w = w\<lparr>engine := (engine w)\<lparr>isSyncing := b\<rparr>\<rparr>"

definition set_online :: "bool \<Rightarrow> ('d, 'z) world_scheme \<Rightarrow> ('d, 'z) world_scheme" where
  "set_online b w = w\<lparr>engine := (engine w)\<lparr>isOnline := b\<rparr>\<rparr>"

text \<open>
  \<open>sync\<close>, run to completion with no other event in between. The result is the value of
  the returned promise (\<open>Inl\<close>: rejected) and the state it leaves. The \<open>finally\<close> block
  runs on both exits of the \<open>try\<close>.
\<close>

definition sync :: "'d env \<Rightarrow> 'd world \<Rightarrow> (error + unit) \<times> 'd world" where
  "sync ev w =
     (if isSyncing (engine w) \<or> \<not> isOnline (engine w) then (Inr (), w)
      else
        let w1 = set_syncing True w;
            (r, w2) = (if store_throws ev ReadQueue then (Inl (StoreError ReadQueue), w1)
                       else sync_loop ev (queue_snapshot (db w1)) w1)
        in (r, set_syncing False w2))"

text \<open>
  \<open>addToQueue\<close>: the row gets the next key, the clock reading \<open>now\<close> and \<open>attempts = 0\<close>.
  The call of \<open>this.sync()\<close> is not awaited, so its outcome is not the outcome of
  \<open>addToQueue\<close>; the state is the one the started drain leaves.
\<close>

definition new_entry ::
  "nat \<Rightarrow> string \<Rightarrow> operation \<Rightarrow> string \<Rightarrow> 'd option \<Rightarrow> int \<Rightarrow> 'd SyncQueue" where
  "new_entry k t opn r d now =
     \<lparr>qid = k, tableName = t, operation = opn, recordId = r, data = d,
      timestamp = now, attempts = 0\<rparr>"

definition db_add_entry ::
  "string \<Rightarrow> operation \<Rightarrow> string \<Rightarrow> 'd option \<Rightarrow> int
   \<Rightarrow> ('d, 'z) world_scheme \<Rightarrow> ('d, 'z) world_scheme" where
  "db_add_entry t opn r d now w =
     w\<lparr>db := (db w)\<lparr>syncQueue := syncQueue (db w) @ [new_entry (syncQueueKey (db w)) t opn r d now],
                     syncQueueKey := syncQueueKey (db w) + 1\<rparr>\<rparr>"

definition addToQueue ::
  "'d env \<Rightarrow> int \<Rightarrow> string \<Rightarrow> operation \<Rightarrow> string \<Rightarrow> 'd option \<Rightarrow> 'd world
   \<Rightarrow> (error + unit) \<times> 'd world" where
  "addToQueue ev now t opn r d w =
     (if store_throws ev AddEntry then (Inl (StoreError AddEntry), w)
      else
        let w1 = db_add_entry t opn r d now w in
        if isOnline (engine w1) then (Inr (), snd (sync ev w1)) else (Inr (), w1))"

definition handleOnline :: "'d env \<Rightarrow> 'd world \<Rightarrow> 'd world" where
  "handleOnline ev w = snd (sync ev (set_online True w))"

definition handleOffline :: "'d world \<Rightarrow> 'd world" where
  "handleOffline w = set_online False w"

definition getStatus :: "'d world \<Rightarrow> SyncEngine" where
  "getStatus w = \<lparr>isOnline = isOnline (engine w), isSyncing = isSyncing (engine w)\<rparr>"


text \<open>
  The \<open>try\<close> block of \<open>sync\<close> on its own, entered with the flag already raised: the read
  of the outbox and the loop. \<open>sync\<close> is the guard, the raising of the flag, this block,
  and the \<open>finally\<close> block.
\<close>

definition sync_try :: "'d env \<Rightarrow> 'd world \<Rightarrow> (error + unit) \<times> 'd world" where
  "sync_try ev w1 =
     (if store_throws ev ReadQueue then (Inl (StoreError ReadQueue), w1)
      else sync_loop ev (queue_snapshot (db w1)) w1)"

text \<open>
  How the Supabase client answers a request. The client is a library, not code of this
  repository; its answers are taken as the repository's own callers read them
  (\<open>const { data, error } = await supabaseAdmin. ... ; if (error) throw error\<close> in the task
  actions, \<open>if (error) { ... status: 500 }\<close> in the user sync route): the awaited call
  resolves to a value whose \<open>error\<close> is null, the request having been applied; or it
  resolves to a value whose \<open>error\<close> is set, the request having failed; or the call throws.
  The replay failed in the last two cases.
\<close>

datatype client_result = Resolved_ok | Resolved_error | Threw

definition replay_failed :: "client_result \<Rightarrow> bool" where
  "replay_failed res \<longleftrightarrow> res \<noteq> Resolved_ok"

text \<open>
  The environment a client gives: \<open>await\<close> throws exactly when the call throws. A value
  the call resolves to is not looked at by \<open>syncItem\<close>, whatever its \<open>error\<close>.
\<close>

definition client_env :: "('d SyncQueue \<Rightarrow> client_result) \<Rightarrow> (io_op \<Rightarrow> bool) \<Rightarrow> 'd env" where
  "client_env res st = \<lparr>remote_throws = (\<lambda>item. res item = Threw), store_throws = st\<rparr>"

text \<open>Several drain passes in a row, each with its own outcomes.\<close>

fun drain_passes :: "'d env list \<Rightarrow> 'd world \<Rightarrow> 'd world" where
  "drain_passes [] w = w"
| "drain_passes (ev # evs) w = drain_passes evs (snd (sync ev w))"

section \<open>Interleaved execution on the event loop\<close>

text \<open>
  \<open>sync\<close> and \<open>addToQueue\<close> are \<open>async\<close>: each runs until its next \<open>await\<close> and
  resumes when the awaited operation settles, and window events and other calls run in
  between. A drain in flight is the point where it waits, with the snapshot row being
  replayed and the rows still to come.
\<close>

datatype 'd pc =
    AwaitRead
  | AwaitRemote "'d SyncQueue" "'d SyncQueue list"
  | AwaitDeleteSynced "'d SyncQueue" "'d SyncQueue list"
  | AwaitUpdate "'d SyncQueue" "'d SyncQueue list"
  | AwaitEvict "'d SyncQueue" "'d SyncQueue list"

text \<open>
  The running system: the world, the drains in flight, and the calls of \<open>addToQueue\<close>
  waiting for \<open>db.syncQueue.add\<close> (table, operation, record id, payload, clock reading).
\<close>

record 'd sys = "'d world" +
  drains :: "'d pc list"
  adds :: "(string \<times> operation \<times> string \<times> 'd option \<times> int) list"

text \<open>
  What can happen next: the window's \<open>online\<close> and \<open>offline\<close> events (\<open>handleOnline\<close>,
  \<open>handleOffline\<close>), a call of \<open>sync\<close> (the periodic timer of the sync provider), a call
  of \<open>addToQueue\<close> with its arguments and clock reading, and the settling of an awaited
  operation, of the \<open>i\<close>-th pending \<open>addToQueue\<close> or the \<open>i\<close>-th drain, resolved
  (\<open>True\<close>) or rejected.
\<close>

datatype 'd event =
    Online
  | Offline
  | CallSync
  | CallAdd string operation string "'d option" int
  | AddSettled nat bool
  | DrainSettled nat bool

definition remove_nth :: "nat \<Rightarrow> 'a list \<Rightarrow> 'a list" where
  "remove_nth i xs = take i xs @ drop (Suc i) xs"

text \<open>The synchronous prefix of \<open>sync\<close>: the guard, the flag, the read request.\<close>

definition start_sync :: "'d sys \<Rightarrow> 'd sys" where
  "start_sync s =
     (if isSyncing (engine s) \<or> \<not> isOnline (engine s) then s
      else (set_syncing True s)\<lparr>drains := drains s @ [AwaitRead]\<rparr>)"

text \<open>The \<open>finally\<close> block, after which drain \<open>i\<close> is over.\<close>

definition finish :: "nat \<Rightarrow> 'd sys \<Rightarrow> 'd sys" where
  "finish i s = (set_syncing False s)\<lparr>drains := remove_nth i (drains s)\<rparr>"

definition wait_at :: "nat \<Rightarrow> 'd pc \<Rightarrow> 'd sys \<Rightarrow> 'd sys" where
  "wait_at i p s = s\<lparr>drains := (drains s)[i := p]\<rparr>"

text \<open>The head of the \<open>for\<close> loop: the next row's remote call, or the end of the pass.\<close>

definition continue :: "nat \<Rightarrow> 'd SyncQueue list \<Rightarrow> 'd sys \<Rightarrow> 'd sys" where
  "continue i queue s =
     (case queue of
        [] \<Rightarrow> finish i s
      | item # rest \<Rightarrow> wait_at i (AwaitRemote item rest) s)"

definition drain_step :: "nat \<Rightarrow> bool \<Rightarrow> 'd sys \<Rightarrow> 'd sys" where
  "drain_step i ok s =
     (case drains s ! i of
        AwaitRead \<Rightarrow>
          if ok then continue i (queue_snapshot (db s)) s else finish i s
      | AwaitRemote item rest \<Rightarrow>
          let s1 = s\<lparr>calls := calls s @ [(request_of item, ok)]\<rparr> in
          if ok then wait_at i (AwaitDeleteSynced item rest) s1
          else wait_at i (AwaitUpdate item rest) s1
      | AwaitDeleteSynced item rest \<Rightarrow>
          if ok then continue i rest (db_delete (qid item) s)
          else wait_at i (AwaitUpdate item rest) s
      | AwaitUpdate item rest \<Rightarrow>
          if ok then
            let s1 = db_update_attempts (qid item) (attempts item + 1) s in
            if attempts item \<ge> 5 then wait_at i (AwaitEvict item rest) s1
            else continue i rest s1
          else finish i s
      | AwaitEvict item rest \<Rightarrow>
          if ok then continue i rest (db_delete (qid item) s) else finish i s)"

definition add_step :: "nat \<Rightarrow> bool \<Rightarrow> 'd sys \<Rightarrow> 'd sys" where
  "add_step i ok s =
     (case adds s ! i of (t, opn, r, d, now) \<Rightarrow>
        let s1 = s\<lparr>adds := remove_nth i (adds s)\<rparr> in
        if ok then
          let s2 = db_add_entry t opn r d now s1 in
          if isOnline (engine s2) then start_sync s2 else s2
        else s1)"

fun step :: "'d event \<Rightarrow> 'd sys \<Rightarrow> 'd sys" where
  "step Online s = start_sync (set_online True s)"
| "step Offline s = set_online False s"
| "step CallSync s = start_sync s"
| "step (CallAdd t opn r d now) s = s\<lparr>adds := adds s @ [(t, opn, r, d, now)]\<rparr>"
| "step (AddSettled i ok) s = (if i < length (adds s) then add_step i ok s else s)"
| "step (DrainSettled i ok) s = (if i < length (drains s) then drain_step i ok s else s)"

fun exec :: "'d event list \<Rightarrow> 'd sys \<Rightarrow> 'd sys" where
  "exec [] s = s"
| "exec (e # es) s = exec es (step e s)"

text \<open>
  The state the constructor leaves: \<open>isOnline = navigator.onLine\<close>, \<open>isSyncing = false\<close>,
  the database as the last session left it, nothing in flight.
\<close>

definition init_sys :: "bool \<Rightarrow> 'd LifeOSDatabase \<Rightarrow> 'd sys" where
  "init_sys online d =
     \<lparr>engine = \<lparr>isOnline = online, isSyncing = False\<rparr>, db = d, calls = [],
      drains = [], adds = []\<rparr>"

text \<open>The reentrancy invariant: at most one drain in flight, and the flag says whether.\<close>

definition one_drain :: "'d sys \<Rightarrow> bool" where
  "one_drain s \<longleftrightarrow> length (drains s) \<le> 1 \<and> (isSyncing (engine s) \<longleftrightarrow> drains s \<noteq> [])"

text \<open>
  The world inside a running system, and a running system with its world replaced.
\<close>

definition world_of :: "'d sys \<Rightarrow> 'd world" where
  "world_of s = \<lparr>engine = engine s, db = db s, calls = calls s\<rparr>"

definition sys_with :: "'d world \<Rightarrow> 'd sys \<Rightarrow> 'd sys" where
  "sys_with w s = s\<lparr>engine := engine w, db := db w, calls := calls w\<rparr>"

text \<open>
  The outcomes of the operations one drain awaits, in the order it awaits them, as the
  environment decides them: for one row (with whether the loop goes on after it), for
  the rows of a snapshot, and for a whole pass.
\<close>

definition item_outcomes :: "'d env \<Rightarrow> 'd SyncQueue \<Rightarrow> bool list \<times> bool" where
  "item_outcomes ev item =
     (if \<not> remote_throws ev item \<and> \<not> store_throws ev (DeleteSynced (qid item))
      then ([True, True], True)
      else
        let pre = (if remote_throws ev item then [False] else [True, False]) in
        if store_throws ev (UpdateAttempts (qid item)) then (pre @ [False], False)
        else if attempts item \<ge> 5
        then (if store_throws ev (DeleteEvicted (qid item)) then (pre @ [True, False], False)
              else (pre @ [True, True], True))
        else (pre @ [True], True))"

fun loop_outcomes :: "'d env \<Rightarrow> 'd SyncQueue list \<Rightarrow> bool list" where
  "loop_outcomes ev [] = []"
| "loop_outcomes ev (item # rest) =
     (case item_outcomes ev item of
        (os, go) \<Rightarrow> os @ (if go then loop_outcomes ev rest else []))"

definition sync_outcomes :: "'d env \<Rightarrow> 'd LifeOSDatabase \<Rightarrow> bool list" where
  "sync_outcomes ev d =
     (if store_throws ev ReadQueue then [False] else True # loop_outcomes ev (queue_snapshot d))"

section \<open>An entity-mutating operation (src/lib/ai-actions/expenses.ts)\<close>

record ExpenseParams =
  p_amount :: jsvalue
  p_category :: jsvalue
  p_description :: jsvalue

text \<open>
  The four objects \<open>createExpense\<close> returns, without their message texts: the two
  validation errors, the failure of \<open>db.expenses.add\<close>, and the success with
  \<open>data: { expenseId, amount, category }\<close>.
\<close>

datatype ActionResult =
    Invalid_amount
  | Amount_too_large
  | Add_failed
  | Added nat jsnumber string

definition VALID_CATEGORIES :: "string list" where
  "VALID_CATEGORIES =
     [''Food & Dining'', ''Transportation'', ''Shopping'', ''Entertainment'',
      ''Bills & Utilities'', ''Healthcare'', ''Education'', ''Other'']"

text \<open>\<open>amount <= 0\<close> and \<open>amount > 999999\<close> on JavaScript numbers; both are false on NaN.\<close>

fun js_le_zero :: "jsnumber \<Rightarrow> bool" where
  "js_le_zero (Finite q) = (q \<le> 0)"
| "js_le_zero NegInf = True"
| "js_le_zero PosInf = False"
| "js_le_zero NaN = False"

fun js_gt_max :: "jsnumber \<Rightarrow> bool" where
  "js_gt_max (Finite q) = (q > 999999)"
| "js_gt_max PosInf = True"
| "js_gt_max NegInf = False"
| "js_gt_max NaN = False"

fun truthy :: "jsvalue \<Rightarrow> bool" where
  "truthy (JNum (Finite q)) = (q \<noteq> 0)"
| "truthy (JNum NaN) = False"
| "truthy (JNum _) = True"
| "truthy (JStr s) = (s \<noteq> [])"
| "truthy (JBool b) = b"
| "truthy JUndefined = False"
| "truthy JNull = False"
| "truthy JObject = True"

text \<open>
  \<open>sanitizeInput\<close> returns the empty string for anything but a non-empty string; what it
  does to a string (three regular-expression replacements, \<open>trim\<close>, a length limit) is the
  parameter \<open>clean\<close>.
\<close>

definition sanitizeInput :: "(string \<Rightarrow> string) \<Rightarrow> jsvalue \<Rightarrow> string" where
  "sanitizeInput clean v = (case v of JStr s \<Rightarrow> if s = [] then [] else clean s | _ \<Rightarrow> [])"

definition db_add_expense ::
  "jsnumber \<Rightarrow> string \<Rightarrow> string option \<Rightarrow> int \<Rightarrow> int \<Rightarrow> string
   \<Rightarrow> ('d, 'z) world_scheme \<Rightarrow> ('d, 'z) world_scheme" where
  "db_add_expense a c ds t1 t2 userId w =
     w\<lparr>db := (db w)\<lparr>expenses := expenses (db w) @
                       [\<lparr>eid = expensesKey (db w), amount = a, category = c, description = ds,
                         date = t1, createdAt = t2, owner_id = userId, synced = False\<rparr>],
                     expensesKey := expensesKey (db w) + 1\<rparr>\<rparr>"

text \<open>
  \<open>createExpense(params, userId)\<close>; \<open>t1\<close> and \<open>t2\<close> are its two clock readings. It writes
  the expense with \<open>synced: false\<close> to the local table and returns.
\<close>

definition createExpense ::
  "(string \<Rightarrow> string) \<Rightarrow> 'd env \<Rightarrow> int \<Rightarrow> int \<Rightarrow> ExpenseParams \<Rightarrow> string \<Rightarrow> 'd world
   \<Rightarrow> ActionResult \<times> 'd world" where
  "createExpense clean ev t1 t2 params userId w =
     (case p_amount params of
        JNum a \<Rightarrow>
          if js_le_zero a then (Invalid_amount, w)
          else if js_gt_max a then (Amount_too_large, w)
          else
            let c = (case p_category params of
                       JStr x \<Rightarrow> if x \<in> set VALID_CATEGORIES then x else ''Other''
                     | _ \<Rightarrow> ''Other'');
                ds = (if truthy (p_description params)
                      then Some (sanitizeInput clean (p_description params)) else None)
            in if store_throws ev AddExpense then (Add_failed, w)
               else (Added (expensesKey (db w)) a c, db_add_expense a c ds t1 t2 userId w)
      | _ \<Rightarrow> (Invalid_amount, w))"

section \<open>The remote backend as a test double, and a record's local state\<close>






section \<open>Sample data\<close>

definition sample_item :: "nat \<Rightarrow> int \<Rightarrow> nat \<Rightarrow> string SyncQueue" where
  "sample_item k ts n =
     \<lparr>qid = k, tableName = ''expenses'', operation = Create, recordId = ''1'',
      data = Some ''groceries'', timestamp = ts, attempts = n\<rparr>"

definition sample_expense :: Expense where
  "sample_expense =
     \<lparr>eid = 1, amount = Finite 500, category = ''Other'', description = None, date = 1000,
      createdAt = 1000, owner_id = ''u1'', synced = False\<rparr>"

definition sample_db :: "string SyncQueue list \<Rightarrow> nat \<Rightarrow> string LifeOSDatabase" where
  "sample_db rows k =
     \<lparr>tasks = [], habits = [], expenses = [sample_expense], expensesKey = 2, notes_table = [],
      studySessions = [], subjects = [], topics = [], documents = [], syncQueue = rows,
      syncQueueKey = k, aiQueue = []\<rparr>"

definition sample_world :: "bool \<Rightarrow> string SyncQueue list \<Rightarrow> nat \<Rightarrow> string world" where
  "sample_world online rows k =
     \<lparr>engine = \<lparr>isOnline = online, isSyncing = False\<rparr>, db = sample_db rows k, calls = []\<rparr>"

text \<open>An environment whose store never fails and whose remote call fails as \<open>f\<close> says.\<close>

definition sample_env :: "(string SyncQueue \<Rightarrow> bool) \<Rightarrow> string env" where
  "sample_env f = \<lparr>remote_throws = f, store_throws = (\<lambda>x. False)\<rparr>"


section \<open>What the store operations change\<close>

lemma db_delete_simps [simp]:
  "engine (db_delete k w) = engine w"
  "calls (db_delete k w) = calls w"
  "expenses (db (db_delete k w)) = expenses (db w)"
  "expensesKey (db (db_delete k w)) = expensesKey (db w)"
  "syncQueueKey (db (db_delete k w)) = syncQueueKey (db w)"
  "syncQueue (db (db_delete k w)) = queue_delete k (syncQueue (db w))"
  by (simp_all add: db_delete_def)

lemma db_update_attempts_simps [simp]:
  "engine (db_update_attempts k n w) = engine w"
  "calls (db_update_attempts k n w) = calls w"
  "expenses (db (db_update_attempts k n w)) = expenses (db w)"
  "expensesKey (db (db_update_attempts k n w)) = expensesKey (db w)"
  "syncQueueKey (db (db_update_attempts k n w)) = syncQueueKey (db w)"
  "syncQueue (db (db_update_attempts k n w)) = queue_update_attempts k n (syncQueue (db w))"
  by (simp_all add: db_update_attempts_def)

lemma set_syncing_simps [simp]:
  "db (set_syncing b w) = db w"
  "calls (set_syncing b w) = calls w"
  "isSyncing (engine (set_syncing b w)) = b"
  "isOnline (engine (set_syncing b w)) = isOnline (engine w)"
  by (simp_all add: set_syncing_def)

lemma set_online_simps [simp]:
  "db (set_online b w) = db w"
  "calls (set_online b w) = calls w"
  "isOnline (engine (set_online b w)) = b"
  "isSyncing (engine (set_online b w)) = isSyncing (engine w)"
  by (simp_all add: set_online_def)

lemma syncItem_simps [simp]:
  "engine (snd (syncItem ev item w)) = engine w"
  "db (snd (syncItem ev item w)) = db w"
  "calls (snd (syncItem ev item w)) = calls w @ [(request_of item, \<not> remote_throws ev item)]"
  "fst (syncItem ev item w) = (if remote_throws ev item then Inl RemoteError else Inr ())"
  by (simp_all add: syncItem_def)

lemma sync_catch_frame [simp]:
  "engine (snd (sync_catch ev item w)) = engine w"
  "calls (snd (sync_catch ev item w)) = calls w"
  "expenses (db (snd (sync_catch ev item w))) = expenses (db w)"
  "expensesKey (db (snd (sync_catch ev item w))) = expensesKey (db w)"
  "syncQueueKey (db (snd (sync_catch ev item w))) = syncQueueKey (db w)"
  by (simp_all add: sync_catch_def Let_def)

lemma sync_body_frame [simp]:
  "engine (snd (sync_body ev item w)) = engine w"
  "calls (snd (sync_body ev item w)) = calls w @ [(request_of item, \<not> remote_throws ev item)]"
  "expenses (db (snd (sync_body ev item w))) = expenses (db w)"
  "expensesKey (db (snd (sync_body ev item w))) = expensesKey (db w)"
  "syncQueueKey (db (snd (sync_body ev item w))) = syncQueueKey (db w)"
  by (simp_all add: sync_body_def syncItem_def split: prod.splits sum.splits)

text \<open>The loop touches neither the engine's flags nor any table but the outbox.\<close>

lemma sync_loop_frame:
  "engine (snd (sync_loop ev xs w)) = engine w \<and>
   expenses (db (snd (sync_loop ev xs w))) = expenses (db w) \<and>
   expensesKey (db (snd (sync_loop ev xs w))) = expensesKey (db w) \<and>
   syncQueueKey (db (snd (sync_loop ev xs w))) = syncQueueKey (db w)"
proof (induction xs arbitrary: w)
  case Nil
  show ?case by simp
next
  case (Cons item rest)
  show ?case
  proof (cases "sync_body ev item w")
    case (Pair r w1)
    have fr: "engine w1 = engine w" "expenses (db w1) = expenses (db w)"
       "expensesKey (db w1) = expensesKey (db w)" "syncQueueKey (db w1) = syncQueueKey (db w)"
      using sync_body_frame [of ev item w] Pair by simp_all
    show ?thesis
    proof (cases r)
      case (Inl e)
      with Pair fr show ?thesis by simp
    next
      case (Inr u)
      with Pair fr Cons.IH [of w1] show ?thesis by simp
    qed
  qed
qed

text \<open>Of the database, a pass changes the outbox table and nothing else.\<close>

lemma without_outbox_simps [simp]:
  "without_outbox (d\<lparr>syncQueue := q\<rparr>) = without_outbox d"
  "expenses (without_outbox d) = expenses d"
  "syncQueueKey (without_outbox d) = syncQueueKey d"
  by (simp_all add: without_outbox_def)

lemma sync_catch_db:
  "without_outbox (db (snd (sync_catch ev item w))) = without_outbox (db w)"
  by (simp add: sync_catch_def Let_def db_delete_def db_update_attempts_def)

lemma sync_body_db:
  "without_outbox (db (snd (sync_body ev item w))) = without_outbox (db w)"
  by (simp add: sync_body_def syncItem_def db_delete_def sync_catch_db)

lemma sync_loop_db:
  "without_outbox (db (snd (sync_loop ev xs w))) = without_outbox (db w)"
proof (induction xs arbitrary: w)
  case Nil
  show ?case by simp
next
  case (Cons item rest)
  show ?case
  proof (cases "sync_body ev item w")
    case (Pair r w1)
    have b: "without_outbox (db w1) = without_outbox (db w)"
      using sync_body_db [of ev item w] Pair by simp
    show ?thesis
    proof (cases r)
      case (Inl e)
      with Pair b show ?thesis by simp
    next
      case (Inr u)
      with Pair b Cons.IH [of w1] show ?thesis by simp
    qed
  qed
qed

lemma sync_db:
  "without_outbox (db (snd (sync ev w))) = without_outbox (db w)"
proof (cases "isSyncing (engine w) \<or> \<not> isOnline (engine w) \<or> store_throws ev ReadQueue")
  case True
  then show ?thesis by (auto simp: sync_def Let_def)
next
  case False
  then show ?thesis
    using sync_loop_db [of ev "queue_snapshot (db w)" "set_syncing True w"]
    by (cases "sync_loop ev (queue_snapshot (db w)) (set_syncing True w)")
       (simp add: sync_def Let_def)
qed

section \<open>A pass whose handler does not fail runs over the whole snapshot\<close>

lemma sync_catch_ok:
  "\<not> store_throws ev (UpdateAttempts (qid item)) \<Longrightarrow>
   \<not> store_throws ev (DeleteEvicted (qid item)) \<Longrightarrow>
   fst (sync_catch ev item w) = Inr ()"
  by (simp add: sync_catch_def Let_def)

lemma sync_body_ok:
  "\<not> store_throws ev (UpdateAttempts (qid item)) \<Longrightarrow>
   \<not> store_throws ev (DeleteEvicted (qid item)) \<Longrightarrow>
   fst (sync_body ev item w) = Inr ()"
  by (simp add: sync_body_def syncItem_def sync_catch_ok)

lemma sync_loop_Cons_ok:
  "fst (sync_body ev item w) = Inr () \<Longrightarrow>
   sync_loop ev (item # rest) w = sync_loop ev rest (snd (sync_body ev item w))"
  by (cases "sync_body ev item w") (auto split: sum.splits)

lemma sync_loop_ok:
  assumes "\<forall>k. \<not> store_throws ev (UpdateAttempts k)" "\<forall>k. \<not> store_throws ev (DeleteEvicted k)"
  shows "fst (sync_loop ev xs w) = Inr () \<and>
         calls (snd (sync_loop ev xs w)) =
           calls w @ map (\<lambda>i. (request_of i, \<not> remote_throws ev i)) xs"
proof (induction xs arbitrary: w)
  case Nil
  show ?case by simp
next
  case (Cons item rest)
  have ok: "fst (sync_body ev item w) = Inr ()"
    using assms by (simp add: sync_body_ok)
  show ?case
    unfolding sync_loop_Cons_ok [OF ok] using Cons.IH [of "snd (sync_body ev item w)"]
    by simp
qed

lemma sync_started:
  "\<not> isSyncing (engine w) \<Longrightarrow> isOnline (engine w) \<Longrightarrow> \<not> store_throws ev ReadQueue \<Longrightarrow>
   sync ev w = (fst (sync_loop ev (queue_snapshot (db w)) (set_syncing True w)),
                set_syncing False (snd (sync_loop ev (queue_snapshot (db w)) (set_syncing True w))))"
  by (simp add: sync_def Let_def split: prod.splits)

lemmas sample_defs =
  sample_world_def sample_env_def sample_db_def sample_item_def sample_expense_def

lemmas run_defs =
  sync_def queue_snapshot_def sync_body_def syncItem_def sync_catch_def request_of_def
  queue_update_attempts_def queue_delete_def Let_def




section \<open>Rows of the outbox under the loop\<close>

lemma queue_delete_keeps:
  "r \<in> set rows \<Longrightarrow> qid r \<noteq> k \<Longrightarrow> r \<in> set (queue_delete k rows)"
  by (simp add: queue_delete_def)

lemma queue_update_keeps:
  "r \<in> set rows \<Longrightarrow> qid r \<noteq> k \<Longrightarrow> r \<in> set (queue_update_attempts k n rows)"
  by (force simp: queue_update_attempts_def)

lemma queue_update_hits:
  "r \<in> set rows \<Longrightarrow> r\<lparr>attempts := n\<rparr> \<in> set (queue_update_attempts (qid r) n rows)"
  by (force simp: queue_update_attempts_def)

lemma queue_delete_ids: "qid ` set (queue_delete k rows) = qid ` set rows - {k}"
  by (auto simp: queue_delete_def)

lemma queue_update_ids: "map qid (queue_update_attempts k n rows) = map qid rows"
  by (simp add: queue_update_attempts_def)

lemma queue_update_ids_set: "qid ` set (queue_update_attempts k n rows) = qid ` set rows"
  using queue_update_ids [of k n rows] by (metis set_map)

lemma sync_catch_keeps:
  "r \<in> set (syncQueue (db w)) \<Longrightarrow> qid r \<noteq> qid item \<Longrightarrow>
   r \<in> set (syncQueue (db (snd (sync_catch ev item w))))"
  by (simp add: sync_catch_def Let_def queue_delete_keeps queue_update_keeps)

lemma sync_body_keeps:
  "r \<in> set (syncQueue (db w)) \<Longrightarrow> qid r \<noteq> qid item \<Longrightarrow>
   r \<in> set (syncQueue (db (snd (sync_body ev item w))))"
  by (simp add: sync_body_def syncItem_def sync_catch_keeps queue_delete_keeps)

lemma sync_catch_ids:
  "qid ` set (syncQueue (db (snd (sync_catch ev item w)))) \<subseteq> qid ` set (syncQueue (db w))"
  by (auto simp: sync_catch_def Let_def queue_delete_ids queue_update_ids_set)

lemma sync_body_ids:
  "qid ` set (syncQueue (db (snd (sync_body ev item w)))) \<subseteq> qid ` set (syncQueue (db w))"
proof -
  have c: "qid ` set (syncQueue (db (snd (sync_catch ev item (snd (syncItem ev item w))))))
             \<subseteq> qid ` set (syncQueue (db w))"
    using sync_catch_ids [of ev item "snd (syncItem ev item w)"] by simp
  have b: "snd (sync_body ev item w) = snd (sync_catch ev item (snd (syncItem ev item w))) \<or>
           snd (sync_body ev item w) = db_delete (qid item) (snd (syncItem ev item w))"
    by (simp add: sync_body_def syncItem_def)
  from b show ?thesis
  proof
    assume "snd (sync_body ev item w) = snd (sync_catch ev item (snd (syncItem ev item w)))"
    with c show ?thesis by simp
  next
    assume "snd (sync_body ev item w) = db_delete (qid item) (snd (syncItem ev item w))"
    then show ?thesis by (simp add: queue_delete_ids)
  qed
qed

lemma sync_loop_step:
  "snd (sync_loop ev (item # rest) w) =
     (if fst (sync_body ev item w) = Inr () then snd (sync_loop ev rest (snd (sync_body ev item w)))
      else snd (sync_body ev item w))"
  by (cases "sync_body ev item w") (auto split: sum.splits)

lemma sync_loop_keeps:
  "r \<in> set (syncQueue (db w)) \<Longrightarrow> qid r \<notin> qid ` set xs \<Longrightarrow>
   r \<in> set (syncQueue (db (snd (sync_loop ev xs w))))"
proof (induction xs arbitrary: w)
  case Nil
  then show ?case by simp
next
  case (Cons item rest)
  from Cons.prems have a: "r \<in> set (syncQueue (db (snd (sync_body ev item w))))"
    by (simp add: sync_body_keeps)
  from Cons.prems have b: "qid r \<notin> qid ` set rest" by simp
  show ?case
    unfolding sync_loop_step using a Cons.IH [OF a b] by simp
qed

lemma sync_loop_ids:
  "qid ` set (syncQueue (db (snd (sync_loop ev xs w)))) \<subseteq> qid ` set (syncQueue (db w))"
proof (induction xs arbitrary: w)
  case Nil
  show ?case by simp
next
  case (Cons item rest)
  show ?case
  proof (cases "fst (sync_body ev item w) = Inr ()")
    case True
    then show ?thesis
      unfolding sync_loop_step
      using subset_trans [OF Cons.IH [of "snd (sync_body ev item w)"] sync_body_ids [of ev item w]]
      by simp
  next
    case False
    then show ?thesis
      unfolding sync_loop_step using sync_body_ids [of ev item w] by simp
  qed
qed

lemma sync_body_failed:
  assumes "remote_throws ev item" "attempts item < 5"
    and "\<not> store_throws ev (UpdateAttempts (qid item))"
    and "item \<in> set (syncQueue (db w))"
  shows "item\<lparr>attempts := attempts item + 1\<rparr> \<in> set (syncQueue (db (snd (sync_body ev item w))))"
  using assms by (simp add: sync_body_def syncItem_def sync_catch_def Let_def queue_update_hits)

lemma sync_body_synced:
  assumes "\<not> remote_throws ev item" "\<not> store_throws ev (DeleteSynced (qid item))"
  shows "qid item \<notin> qid ` set (syncQueue (db (snd (sync_body ev item w))))"
  using assms by (simp add: sync_body_def syncItem_def queue_delete_ids)

lemma sync_loop_failed:
  assumes st: "\<forall>k. \<not> store_throws ev (UpdateAttempts k)" "\<forall>k. \<not> store_throws ev (DeleteEvicted k)"
    and it: "remote_throws ev item" "attempts item < 5"
  shows "item \<in> set xs \<Longrightarrow> distinct (map qid xs) \<Longrightarrow> item \<in> set (syncQueue (db w)) \<Longrightarrow>
         item\<lparr>attempts := attempts item + 1\<rparr> \<in> set (syncQueue (db (snd (sync_loop ev xs w))))"
proof (induction xs arbitrary: w)
  case Nil
  then show ?case by simp
next
  case (Cons x rest)
  have ok: "fst (sync_body ev x w) = Inr ()" using st by (simp add: sync_body_ok)
  show ?case
  proof (cases "x = item")
    case True
    have a: "item\<lparr>attempts := attempts item + 1\<rparr> \<in> set (syncQueue (db (snd (sync_body ev item w))))"
      using sync_body_failed [OF it] st Cons.prems(3) by simp
    have b: "qid (item\<lparr>attempts := attempts item + 1\<rparr>) \<notin> qid ` set rest"
      using Cons.prems(2) True by simp
    show ?thesis
      unfolding sync_loop_step using ok True sync_loop_keeps [OF a b] by simp
  next
    case False
    with Cons.prems have mem: "item \<in> set rest" and d: "distinct (map qid rest)"
      by auto
    from Cons.prems(2) mem have ne: "qid item \<noteq> qid x"
      by (auto simp: image_iff)
    have a: "item \<in> set (syncQueue (db (snd (sync_body ev x w))))"
      using Cons.prems(3) ne by (simp add: sync_body_keeps)
    show ?thesis
      unfolding sync_loop_step using ok Cons.IH [OF mem d a] by simp
  qed
qed

lemma sync_loop_synced:
  assumes st: "\<forall>k. \<not> store_throws ev (UpdateAttempts k)" "\<forall>k. \<not> store_throws ev (DeleteEvicted k)"
    and it: "\<not> remote_throws ev item" "\<not> store_throws ev (DeleteSynced (qid item))"
  shows "item \<in> set xs \<Longrightarrow> qid item \<notin> qid ` set (syncQueue (db (snd (sync_loop ev xs w))))"
proof (induction xs arbitrary: w)
  case Nil
  then show ?case by simp
next
  case (Cons x rest)
  have ok: "fst (sync_body ev x w) = Inr ()" using st by (simp add: sync_body_ok)
  show ?case
  proof (cases "x = item")
    case True
    show ?thesis
      unfolding sync_loop_step
      using ok True sync_body_synced [OF it, of w] sync_loop_ids [of ev rest "snd (sync_body ev item w)"]
      by auto
  next
    case False
    with Cons.prems have mem: "item \<in> set rest" by simp
    show ?thesis
      unfolding sync_loop_step using ok Cons.IH [OF mem] by simp
  qed
qed

lemma snapshot_set [simp]: "set (queue_snapshot d) = set (syncQueue d)"
  by (simp add: queue_snapshot_def)

lemma snapshot_distinct:
  "distinct (map qid (syncQueue d)) \<Longrightarrow> distinct (map qid (queue_snapshot d))"
  by (simp add: queue_snapshot_def distinct_map)

text \<open>
  A replay that throws: a row whose remote call throws and whose attempt count is below
  the bound (\<open>attempts < 5\<close>) is in the outbox after the pass with its attempt counter one
  higher and nothing else changed. The keys of the outbox are distinct, and the store
  operations of the \<open>catch\<close> block do not fail.
\<close>

lemma thrown_replay_increments_attempts:
  assumes "\<not> isSyncing (engine w)" "isOnline (engine w)"
    and "\<not> store_throws ev ReadQueue"
    and "\<forall>k. \<not> store_throws ev (UpdateAttempts k)"
    and "\<forall>k. \<not> store_throws ev (DeleteEvicted k)"
    and "distinct (map qid (syncQueue (db w)))"
    and "item \<in> set (syncQueue (db w))"
    and "remote_throws ev item" "attempts item < 5"
  shows "item\<lparr>attempts := attempts item + 1\<rparr> \<in> set (syncQueue (db (snd (sync ev w))))"
  using sync_loop_failed [OF assms(4,5,8,9), of "queue_snapshot (db w)" "set_syncing True w"]
    snapshot_distinct [OF assms(6)] assms(7)
  by (simp add: sync_started [OF assms(1,2,3)])

text \<open>A row at four attempts fails once more and stays, at five.\<close>

lemma thrown_replay_at_four_attempts:
  "sample_item 1 10 4 \<in> set (syncQueue (db (sample_world True [sample_item 1 10 4, sample_item 2 20 0] 3))) \<and>
   attempts (sample_item 1 10 4) < 5 \<and>
   (sample_item 1 10 4)\<lparr>attempts := attempts (sample_item 1 10 4) + 1\<rparr>
     \<in> set (syncQueue (db (snd (sync (sample_env (\<lambda>i. qid i = 1))
          (sample_world True [sample_item 1 10 4, sample_item 2 20 0] 3)))))"
  using thrown_replay_increments_attempts
    [of "sample_world True [sample_item 1 10 4, sample_item 2 20 0] 3"
        "sample_env (\<lambda>i. qid i = 1)" "sample_item 1 10 4"]
  by (simp add: sample_defs)

text \<open>
  C2 as stated fails: \<open>sync\<close> never writes an entity table. An unsynced expense whose
  \<open>create\<close> entry is replayed successfully has its entry removed and its \<open>synced\<close> flag
  still false.
\<close>

theorem synced_flag_counterexample:
  "syncQueue (db (snd (sync (sample_env (\<lambda>i. False)) (sample_world True [sample_item 1 10 0] 2)))) = [] \<and>
   calls (snd (sync (sample_env (\<lambda>i. False)) (sample_world True [sample_item 1 10 0] 2)))
     = [(Upsert ''expenses'' (Some ''groceries''), True)] \<and>
   map synced (expenses (db (snd (sync (sample_env (\<lambda>i. False)) (sample_world True [sample_item 1 10 0] 2)))))
     = [False]"
  by (simp add: sample_defs run_defs)

text \<open>
  C2, amended. A row of the outbox whose replay succeeds during a pass (the remote call
  returns and the delete that follows does not fail) is no longer in the outbox after the
  pass, and its request is in the log of completed remote calls; every table of the local
  database but the outbox is left exactly as it was, so the entity's \<open>synced\<close> flag is
  not changed by the drain.
\<close>

theorem successful_replay_removes_entry:
  assumes "\<not> isSyncing (engine w)" "isOnline (engine w)"
    and "\<not> store_throws ev ReadQueue"
    and "\<forall>k. \<not> store_throws ev (UpdateAttempts k)"
    and "\<forall>k. \<not> store_throws ev (DeleteEvicted k)"
    and "item \<in> set (syncQueue (db w))"
    and "\<not> remote_throws ev item" "\<not> store_throws ev (DeleteSynced (qid item))"
  shows "qid item \<notin> qid ` set (syncQueue (db (snd (sync ev w)))) \<and>
         (request_of item, True) \<in> set (calls (snd (sync ev w))) \<and>
         without_outbox (db (snd (sync ev w))) = without_outbox (db w)"
  using sync_loop_synced [OF assms(4,5,7,8), of "queue_snapshot (db w)" "set_syncing True w"]
    sync_loop_ok [OF assms(4,5), of "queue_snapshot (db w)" "set_syncing True w"]
    sync_loop_db [of ev "queue_snapshot (db w)" "set_syncing True w"] assms(6,7)
  by (auto simp add: sync_started [OF assms(1,2,3)])


text \<open>Of two rows the first succeeds and goes; the expense table is untouched.\<close>

theorem successful_replay_removes_entry_witness:
  "sample_item 1 10 0 \<in> set (syncQueue (db (sample_world True [sample_item 1 10 0, sample_item 2 20 0] 3))) \<and>
   qid (sample_item 1 10 0) \<notin> qid ` set (syncQueue (db (snd (sync (sample_env (\<lambda>i. qid i = 2))
          (sample_world True [sample_item 1 10 0, sample_item 2 20 0] 3))))) \<and>
   expenses (without_outbox (db (snd (sync (sample_env (\<lambda>i. qid i = 2))
          (sample_world True [sample_item 1 10 0, sample_item 2 20 0] 3))))) = [sample_expense]"
  using successful_replay_removes_entry
    [of "sample_world True [sample_item 1 10 0, sample_item 2 20 0] 3"
        "sample_env (\<lambda>i. qid i = 2)" "sample_item 1 10 0"]
  by (simp add: sample_defs)

section \<open>A row that always fails\<close>

lemma queue_delete_distinct:
  "distinct (map qid rows) \<Longrightarrow> distinct (map qid (queue_delete k rows))"
  by (simp add: queue_delete_def distinct_map_filter)

lemma sync_catch_distinct:
  "distinct (map qid (syncQueue (db w))) \<Longrightarrow>
   distinct (map qid (syncQueue (db (snd (sync_catch ev item w)))))"
  by (simp add: sync_catch_def Let_def queue_delete_distinct queue_update_ids)

lemma sync_body_distinct:
  "distinct (map qid (syncQueue (db w))) \<Longrightarrow>
   distinct (map qid (syncQueue (db (snd (sync_body ev item w)))))"
  by (simp add: sync_body_def syncItem_def sync_catch_distinct queue_delete_distinct)

lemma sync_loop_distinct:
  "distinct (map qid (syncQueue (db w))) \<Longrightarrow>
   distinct (map qid (syncQueue (db (snd (sync_loop ev xs w)))))"
proof (induction xs arbitrary: w)
  case Nil
  then show ?case by simp
next
  case (Cons item rest)
  from Cons.prems have d: "distinct (map qid (syncQueue (db (snd (sync_body ev item w)))))"
    by (rule sync_body_distinct)
  show ?case unfolding sync_loop_step using d Cons.IH [OF d] by simp
qed

lemma sync_distinct:
  "distinct (map qid (syncQueue (db w))) \<Longrightarrow>
   distinct (map qid (syncQueue (db (snd (sync ev w)))))"
proof (cases "isSyncing (engine w) \<or> \<not> isOnline (engine w) \<or> store_throws ev ReadQueue")
  case True
  assume "distinct (map qid (syncQueue (db w)))"
  with True show ?thesis by (auto simp: sync_def Let_def)
next
  case False
  assume "distinct (map qid (syncQueue (db w)))"
  then have "distinct (map qid (syncQueue (db (set_syncing True w))))" by simp
  then have "distinct (map qid (syncQueue (db (snd (sync_loop ev (queue_snapshot (db w)) (set_syncing True w))))))"
    by (rule sync_loop_distinct)
  with False show ?thesis by (simp add: sync_started)
qed

lemma sync_engine:
  "\<not> isSyncing (engine w) \<Longrightarrow> engine (snd (sync ev w)) = engine w"
proof (cases "\<not> isOnline (engine w) \<or> store_throws ev ReadQueue")
  case True
  assume "\<not> isSyncing (engine w)"
  with True show ?thesis by (auto simp: sync_def Let_def set_syncing_def)
next
  case False
  assume n: "\<not> isSyncing (engine w)"
  have "engine (snd (sync_loop ev (queue_snapshot (db w)) (set_syncing True w))) = engine (set_syncing True w)"
    using sync_loop_frame [of ev "queue_snapshot (db w)" "set_syncing True w"] by simp
  with False n show ?thesis by (simp add: sync_started set_syncing_def)
qed

lemma sync_body_evicted:
  assumes "remote_throws ev item" "attempts item \<ge> 5"
    and "\<not> store_throws ev (UpdateAttempts (qid item))"
    and "\<not> store_throws ev (DeleteEvicted (qid item))"
  shows "qid item \<notin> qid ` set (syncQueue (db (snd (sync_body ev item w))))"
  using assms by (simp add: sync_body_def syncItem_def sync_catch_def Let_def queue_delete_ids)

lemma sync_loop_evicted:
  assumes st: "\<forall>k. \<not> store_throws ev (UpdateAttempts k)" "\<forall>k. \<not> store_throws ev (DeleteEvicted k)"
    and it: "remote_throws ev item" "attempts item \<ge> 5"
  shows "item \<in> set xs \<Longrightarrow> qid item \<notin> qid ` set (syncQueue (db (snd (sync_loop ev xs w))))"
proof (induction xs arbitrary: w)
  case Nil
  then show ?case by simp
next
  case (Cons x rest)
  have ok: "fst (sync_body ev x w) = Inr ()" using st by (simp add: sync_body_ok)
  show ?case
  proof (cases "x = item")
    case True
    have "qid item \<notin> qid ` set (syncQueue (db (snd (sync_body ev item w))))"
      using it st by (simp add: sync_body_evicted)
    then show ?thesis
      unfolding sync_loop_step
      using ok True sync_loop_ids [of ev rest "snd (sync_body ev item w)"]
      by auto
  next
    case False
    with Cons.prems have mem: "item \<in> set rest" by simp
    show ?thesis
      unfolding sync_loop_step using ok Cons.IH [OF mem] by simp
  qed
qed

text \<open>One failed pass over a row below the bound, with the facts the next pass needs.\<close>

lemma failed_pass:
  assumes g: "\<not> isSyncing (engine w)" "isOnline (engine w)"
    and st: "\<forall>x. \<not> store_throws ev x"
    and d: "distinct (map qid (syncQueue (db w)))"
    and mem: "item \<in> set (syncQueue (db w))"
    and f: "remote_throws ev item" and a: "attempts item < 5"
  shows "item\<lparr>attempts := attempts item + 1\<rparr> \<in> set (syncQueue (db (snd (sync ev w))))"
proof -
  have rd: "\<not> store_throws ev ReadQueue" using st by (rule spec)
  have s1: "\<forall>k. \<not> store_throws ev (UpdateAttempts k)" using st by blast
  have s2: "\<forall>k. \<not> store_throws ev (DeleteEvicted k)" using st by blast
  have m: "item \<in> set (queue_snapshot (db w))" using mem by simp
  have m': "item \<in> set (syncQueue (db (set_syncing True w)))" using mem by simp
  have "item\<lparr>attempts := attempts item + 1\<rparr>
          \<in> set (syncQueue (db (snd (sync_loop ev (queue_snapshot (db w)) (set_syncing True w)))))"
    using s1 s2 f a m snapshot_distinct [OF d] m' by (rule sync_loop_failed)
  then show ?thesis unfolding sync_started [OF g rd] by simp
qed

lemma evicting_pass:
  assumes g: "\<not> isSyncing (engine w)" "isOnline (engine w)"
    and st: "\<forall>x. \<not> store_throws ev x"
    and mem: "item \<in> set (syncQueue (db w))"
    and f: "remote_throws ev item" and a: "attempts item \<ge> 5"
  shows "qid item \<notin> qid ` set (syncQueue (db (snd (sync ev w))))"
proof -
  have rd: "\<not> store_throws ev ReadQueue" using st by (rule spec)
  have s1: "\<forall>k. \<not> store_throws ev (UpdateAttempts k)" using st by blast
  have s2: "\<forall>k. \<not> store_throws ev (DeleteEvicted k)" using st by blast
  have m: "item \<in> set (queue_snapshot (db w))" using mem by simp
  have "qid item \<notin> qid ` set (syncQueue (db (snd (sync_loop ev (queue_snapshot (db w)) (set_syncing True w)))))"
    using s1 s2 f a m by (rule sync_loop_evicted)
  then show ?thesis unfolding sync_started [OF g rd] by simp
qed

text \<open>
  A row whose replay fails in every pass climbs by one per pass as long as it is below
  the bound: after \<open>n\<close> passes, \<open>attempts + n \<le> 5\<close>, it is still in the outbox.
\<close>

lemma failing_row_stays:
  assumes st: "\<forall>ev \<in> set evs. \<forall>x. \<not> store_throws ev x"
    and f: "\<forall>ev \<in> set evs. \<forall>i. qid i = qid item \<longrightarrow> remote_throws ev i"
  shows "\<not> isSyncing (engine w) \<Longrightarrow> isOnline (engine w) \<Longrightarrow>
         distinct (map qid (syncQueue (db w))) \<Longrightarrow> item \<in> set (syncQueue (db w)) \<Longrightarrow>
         attempts item + length evs \<le> 5 \<Longrightarrow>
         item\<lparr>attempts := attempts item + length evs\<rparr> \<in> set (syncQueue (db (drain_passes evs w))) \<and>
         \<not> isSyncing (engine (drain_passes evs w)) \<and> isOnline (engine (drain_passes evs w))"
  using st f
proof (induction evs arbitrary: w item)
  case Nil
  then show ?case by simp
next
  case (Cons ev evs)
  let ?w1 = "snd (sync ev w)"
  let ?i1 = "item\<lparr>attempts := attempts item + 1\<rparr>"
  have st0: "\<forall>x. \<not> store_throws ev x" using Cons.prems(6) by simp
  have f0: "remote_throws ev item" using Cons.prems(7) by simp
  have a0: "attempts item < 5" using Cons.prems(5) by simp
  have m1: "?i1 \<in> set (syncQueue (db ?w1))"
    using Cons.prems(1,2) st0 Cons.prems(3,4) f0 a0 by (rule failed_pass)
  have e1: "engine ?w1 = engine w" using Cons.prems(1) by (rule sync_engine)
  have g1: "\<not> isSyncing (engine ?w1)" "isOnline (engine ?w1)"
    using e1 Cons.prems(1,2) by simp_all
  have d1: "distinct (map qid (syncQueue (db ?w1)))" using Cons.prems(3) by (rule sync_distinct)
  have a1: "attempts ?i1 + length evs \<le> 5" using Cons.prems(5) by simp
  have st1: "\<forall>ev \<in> set evs. \<forall>x. \<not> store_throws ev x" using Cons.prems(6) by simp
  have f1: "\<forall>ev \<in> set evs. \<forall>i. qid i = qid ?i1 \<longrightarrow> remote_throws ev i"
    using Cons.prems(7) by simp
  have "?i1\<lparr>attempts := attempts ?i1 + length evs\<rparr> \<in> set (syncQueue (db (drain_passes evs ?w1))) \<and>
        \<not> isSyncing (engine (drain_passes evs ?w1)) \<and> isOnline (engine (drain_passes evs ?w1))"
    using g1 d1 m1 a1 st1 f1 by (rule Cons.IH)
  then show ?case by simp
qed

text \<open>
  So a row enqueued at \<open>attempts = 0\<close> is still in the outbox after five failed passes,
  at \<open>attempts = 5\<close>, and the sixth failed pass removes it.
\<close>

lemma failing_row_evicted_by_sixth_pass:
  assumes g: "\<not> isSyncing (engine w)" "isOnline (engine w)"
    and d: "distinct (map qid (syncQueue (db w)))"
    and mem: "item \<in> set (syncQueue (db w))" and z: "attempts item = 0"
    and len: "length evs = 5"
    and st: "\<forall>e \<in> set (evs @ [ev]). \<forall>x. \<not> store_throws e x"
    and f: "\<forall>e \<in> set (evs @ [ev]). \<forall>i. qid i = qid item \<longrightarrow> remote_throws e i"
  shows "item\<lparr>attempts := 5\<rparr> \<in> set (syncQueue (db (drain_passes evs w))) \<and>
         qid item \<notin> qid ` set (syncQueue (db (drain_passes (evs @ [ev]) w)))"
proof -
  let ?w5 = "drain_passes evs w"
  let ?i5 = "item\<lparr>attempts := 5\<rparr>"
  have st5: "\<forall>e \<in> set evs. \<forall>x. \<not> store_throws e x" using st by simp
  have f5: "\<forall>e \<in> set evs. \<forall>i. qid i = qid item \<longrightarrow> remote_throws e i" using f by simp
  have le: "attempts item + length evs \<le> 5" using z len by simp
  have five: "item\<lparr>attempts := attempts item + length evs\<rparr> \<in> set (syncQueue (db ?w5)) \<and>
        \<not> isSyncing (engine ?w5) \<and> isOnline (engine ?w5)"
    using st5 f5 g d mem le by (rule failing_row_stays)
  then have m5: "?i5 \<in> set (syncQueue (db ?w5))" and g5: "\<not> isSyncing (engine ?w5)" "isOnline (engine ?w5)"
    using z len by simp_all
  have st6: "\<forall>x. \<not> store_throws ev x" using st by simp
  have f6: "remote_throws ev ?i5" using f by simp
  have a6: "attempts ?i5 \<ge> 5" by simp
  have "qid ?i5 \<notin> qid ` set (syncQueue (db (snd (sync ev ?w5))))"
    using g5 st6 m5 f6 a6 by (rule evicting_pass)
  moreover have "drain_passes (evs @ [ev]) w = snd (sync ev ?w5)"
    by (induction evs arbitrary: w) simp_all
  ultimately show ?thesis using m5 by simp
qed

text \<open>
  C1. The code at the failing input: one row at \<open>attempts = 0\<close> whose replay always
  fails. After five passes, and five remote calls, it is still in the outbox, with
  \<open>attempts = 5\<close>; the sixth pass makes a sixth call and only then deletes it. The test
  \<open>item.attempts >= 5\<close> reads the count of the snapshot, from before the increment just
  written; \<open>failing_row_evicted_by_sixth_pass\<close> shows the same for every such row. The
  expense stays at \<open>synced = false\<close> throughout.
\<close>

theorem always_failing_entry_replayed_six_times:
  "syncQueue (db (drain_passes (replicate 5 (sample_env (\<lambda>i. True)))
      (sample_world True [sample_item 1 10 0] 2))) = [sample_item 1 10 5] \<and>
   length (calls (drain_passes (replicate 5 (sample_env (\<lambda>i. True)))
      (sample_world True [sample_item 1 10 0] 2))) = 5 \<and>
   syncQueue (db (drain_passes (replicate 6 (sample_env (\<lambda>i. True)))
      (sample_world True [sample_item 1 10 0] 2))) = [] \<and>
   length (calls (drain_passes (replicate 6 (sample_env (\<lambda>i. True)))
      (sample_world True [sample_item 1 10 0] 2))) = 6 \<and>
   map synced (expenses (db (drain_passes (replicate 6 (sample_env (\<lambda>i. True)))
      (sample_world True [sample_item 1 10 0] 2)))) = [False]"
  by (simp add: numeral_eq_Suc sample_defs run_defs db_update_attempts_def db_delete_def
      set_syncing_def)

text \<open>
  C8. \<open>addToQueue\<close> called while \<open>isOnline\<close> is false (and whose \<open>add\<close> does not fail)
  appends one row with the next key, \<open>attempts = 0\<close> and the current clock reading,
  makes no remote call, and changes nothing else but the key generator of the outbox: the
  row is there, as written, when the call returns.
\<close>

theorem offline_enqueue_appends:
  assumes "\<not> isOnline (engine w)" "\<not> store_throws ev AddEntry"
  shows "fst (addToQueue ev now t opn r d w) = Inr () \<and>
         syncQueue (db (snd (addToQueue ev now t opn r d w))) =
           syncQueue (db w) @
             [\<lparr>qid = syncQueueKey (db w), tableName = t, operation = opn, recordId = r, data = d,
               timestamp = now, attempts = 0\<rparr>] \<and>
         calls (snd (addToQueue ev now t opn r d w)) = calls w \<and>
         engine (snd (addToQueue ev now t opn r d w)) = engine w \<and>
         without_outbox (db (snd (addToQueue ev now t opn r d w))) =
           without_outbox ((db w)\<lparr>syncQueueKey := syncQueueKey (db w) + 1\<rparr>)"
  using assms by (simp add: addToQueue_def db_add_entry_def new_entry_def without_outbox_def Let_def)

text \<open>An update enqueued offline behind an older row.\<close>

theorem offline_enqueue_appends_witness:
  "\<not> isOnline (engine (sample_world False [sample_item 1 10 2] 2)) \<and>
   syncQueue (db (snd (addToQueue (sample_env (\<lambda>i. False)) 50 ''expenses'' Update ''1'' (Some ''rent'')
       (sample_world False [sample_item 1 10 2] 2)))) =
     [sample_item 1 10 2,
      \<lparr>qid = 2, tableName = ''expenses'', operation = Update, recordId = ''1'', data = Some ''rent'',
       timestamp = 50, attempts = 0\<rparr>] \<and>
   calls (snd (addToQueue (sample_env (\<lambda>i. False)) 50 ''expenses'' Update ''1'' (Some ''rent'')
       (sample_world False [sample_item 1 10 2] 2))) = []"
  using offline_enqueue_appends
    [of "sample_world False [sample_item 1 10 2] 2" "sample_env (\<lambda>i. False)" 50 "''expenses''"
        Update "''1''" "Some ''rent''"]
  by (simp add: sample_defs)


section \<open>Writers of the outbox\<close>

lemma sync_ids:
  "qid ` set (syncQueue (db (snd (sync ev w)))) \<subseteq> qid ` set (syncQueue (db w))"
proof (cases "isSyncing (engine w) \<or> \<not> isOnline (engine w) \<or> store_throws ev ReadQueue")
  case True
  then show ?thesis by (auto simp: sync_def Let_def)
next
  case False
  then show ?thesis
    using sync_loop_ids [of ev "queue_snapshot (db w)" "set_syncing True w"]
    by (simp add: sync_started)
qed

lemma createExpense_frame:
  "syncQueue (db (snd (createExpense clean ev t1 t2 params userId w))) = syncQueue (db w) \<and>
   syncQueueKey (db (snd (createExpense clean ev t1 t2 params userId w))) = syncQueueKey (db w) \<and>
   calls (snd (createExpense clean ev t1 t2 params userId w)) = calls w \<and>
   engine (snd (createExpense clean ev t1 t2 params userId w)) = engine w"
  by (simp add: createExpense_def db_add_expense_def Let_def split: jsvalue.splits)

text \<open>
  C5 as stated fails: \<open>createExpense\<close> adds the expense to the local table and returns
  without an outbox entry. No function under src/ calls \<open>addToQueue\<close>.
\<close>

theorem createExpense_counterexample:
  "fst (createExpense (\<lambda>x. x) (sample_env (\<lambda>i. False)) 1000 1000
         \<lparr>p_amount = JNum (Finite 250), p_category = JStr ''Shopping'', p_description = JUndefined\<rparr>
         ''u1'' (sample_world True [] 1)) = Added 2 (Finite 250) ''Shopping'' \<and>
   map synced (expenses (db (snd (createExpense (\<lambda>x. x) (sample_env (\<lambda>i. False)) 1000 1000
         \<lparr>p_amount = JNum (Finite 250), p_category = JStr ''Shopping'', p_description = JUndefined\<rparr>
         ''u1'' (sample_world True [] 1))))) = [False, False] \<and>
   syncQueue (db (snd (createExpense (\<lambda>x. x) (sample_env (\<lambda>i. False)) 1000 1000
         \<lparr>p_amount = JNum (Finite 250), p_category = JStr ''Shopping'', p_description = JUndefined\<rparr>
         ''u1'' (sample_world True [] 1)))) = []"
  by (simp add: createExpense_def db_add_expense_def VALID_CATEGORIES_def sample_defs Let_def)

text \<open>
  C5, amended. \<open>createExpense\<close> changes neither the outbox nor the log of remote calls.
  Of the engine's operations only \<open>addToQueue\<close> adds a row to the outbox: \<open>sync\<close> and
  \<open>handleOnline\<close> leave no key in it that was not there before, \<open>handleOffline\<close> leaves
  the database as it is, and \<open>addToQueue\<close> (offline, its \<open>add\<close> succeeding) makes the
  outbox one row longer.
\<close>

theorem outbox_written_only_by_addToQueue:
  "syncQueue (db (snd (createExpense clean ev t1 t2 params userId w))) = syncQueue (db w) \<and>
   calls (snd (createExpense clean ev t1 t2 params userId w)) = calls w \<and>
   qid ` set (syncQueue (db (snd (sync ev w)))) \<subseteq> qid ` set (syncQueue (db w)) \<and>
   qid ` set (syncQueue (db (handleOnline ev w))) \<subseteq> qid ` set (syncQueue (db w)) \<and>
   db (handleOffline w) = db w \<and>
   (\<not> isOnline (engine w) \<and> \<not> store_throws ev AddEntry \<longrightarrow>
      length (syncQueue (db (snd (addToQueue ev now t opn r d w)))) = length (syncQueue (db w)) + 1)"
  using createExpense_frame [of clean ev t1 t2 params userId w] sync_ids [of ev w]
    sync_ids [of ev "set_online True w"]
  by (simp add: handleOnline_def handleOffline_def addToQueue_def db_add_entry_def Let_def)

text \<open>An expense created, and an entry enqueued, next to one pending row.\<close>

theorem outbox_written_only_by_addToQueue_witness:
  "syncQueue (db (snd (createExpense (\<lambda>x. x) (sample_env (\<lambda>i. False)) 1000 1001
         \<lparr>p_amount = JNum (Finite 250), p_category = JStr ''Gifts'', p_description = JStr ''book''\<rparr>
         ''u1'' (sample_world False [sample_item 1 10 0] 2)))) = [sample_item 1 10 0] \<and>
   length (syncQueue (db (snd (addToQueue (sample_env (\<lambda>i. False)) 50 ''expenses'' Create ''2'' (Some ''book'')
         (sample_world False [sample_item 1 10 0] 2))))) = 2"
  using outbox_written_only_by_addToQueue
    [of "\<lambda>x. x" "sample_env (\<lambda>i. False)" 1000 1001
        "\<lparr>p_amount = JNum (Finite 250), p_category = JStr ''Gifts'', p_description = JStr ''book''\<rparr>"
        "''u1''" "sample_world False [sample_item 1 10 0] 2" 50 "''expenses''" Create "''2''" "Some ''book''"]
  by (simp add: sample_defs)

section \<open>Replay order and convergence\<close>


lemma db_add_entry_simps [simp]:
  "engine (db_add_entry t opn r d now w) = engine w"
  "calls (db_add_entry t opn r d now w) = calls w"
  "expenses (db (db_add_entry t opn r d now w)) = expenses (db w)"
  "syncQueueKey (db (db_add_entry t opn r d now w)) = syncQueueKey (db w) + 1"
  "syncQueue (db (db_add_entry t opn r d now w)) =
     syncQueue (db w) @ [new_entry (syncQueueKey (db w)) t opn r d now]"
  by (simp_all add: db_add_entry_def)


lemma new_entry_simps [simp]:
  "qid (new_entry k t opn r d now) = k"
  "timestamp (new_entry k t opn r d now) = now"
  "attempts (new_entry k t opn r d now) = 0"
  by (simp_all add: new_entry_def)

















section \<open>The engine's flags under interleaving\<close>

lemma sys_frame [simp]:
  "drains (db_delete k s) = drains s"
  "drains (db_update_attempts k n s) = drains s"
  "drains (db_add_entry t opn r d now s) = drains s"
  "drains (set_syncing b s) = drains s"
  "drains (set_online b s) = drains s"
  by (simp_all add: db_delete_def db_update_attempts_def db_add_entry_def set_syncing_def
      set_online_def)

lemma start_sync_flags:
  "isOnline (engine (start_sync s)) = isOnline (engine s)"
  "isSyncing (engine (start_sync s)) = (isSyncing (engine s) \<or> isOnline (engine s))"
  "drains (start_sync s) =
     (if isSyncing (engine s) \<or> \<not> isOnline (engine s) then drains s else drains s @ [AwaitRead])"
  by (auto simp: start_sync_def)

lemma finish_flags [simp]:
  "isOnline (engine (finish i s)) = isOnline (engine s)"
  "isSyncing (engine (finish i s)) = False"
  "drains (finish i s) = remove_nth i (drains s)"
  by (simp_all add: finish_def)

lemma wait_at_flags [simp]:
  "engine (wait_at i p s) = engine s"
  "drains (wait_at i p s) = (drains s)[i := p]"
  by (simp_all add: wait_at_def)

lemma continue_flags:
  "isOnline (engine (continue i q s)) = isOnline (engine s)"
  "isSyncing (engine (continue i q s)) = (q \<noteq> [] \<and> isSyncing (engine s))"
  "drains (continue i q s) =
     (case q of [] \<Rightarrow> remove_nth i (drains s) | item # rest \<Rightarrow> (drains s)[i := AwaitRemote item rest])"
  by (simp_all add: continue_def split: list.splits)

lemma one_drain_start_sync: "one_drain s \<Longrightarrow> one_drain (start_sync s)"
  by (auto simp: one_drain_def start_sync_flags)

lemma drain_step_flags:
  "isOnline (engine (drain_step i ok s)) = isOnline (engine s)"
  "isSyncing (engine (drain_step i ok s)) \<Longrightarrow> isSyncing (engine s)"
  by (auto simp: drain_step_def continue_flags Let_def split: pc.splits if_splits)

lemma one_drain_drain_step:
  assumes "one_drain s" "i < length (drains s)"
  shows "one_drain (drain_step i ok s)"
proof -
  from assms obtain p where p: "drains s = [p]" and i: "i = 0" and sy: "isSyncing (engine s)"
    by (cases "drains s") (auto simp: one_drain_def)
  show ?thesis
    using p sy unfolding i
    by (cases p)
       (auto simp: one_drain_def drain_step_def continue_flags remove_nth_def Let_def
             split: list.splits)
qed

lemma add_step_flags:
  "isOnline (engine (add_step i ok s)) = isOnline (engine s)"
  "isSyncing (engine (add_step i ok s)) \<Longrightarrow> isSyncing (engine s) \<or> isOnline (engine s)"
  "isSyncing (engine s) \<Longrightarrow> isSyncing (engine (add_step i ok s))"
  by (auto simp: add_step_def start_sync_flags Let_def split: prod.splits if_splits)

lemma one_drain_add_step: "one_drain s \<Longrightarrow> one_drain (add_step i ok s)"
proof -
  assume a: "one_drain s"
  obtain t opn r d now where e: "adds s ! i = (t, opn, r, d, now)"
    by (cases "adds s ! i") auto
  let ?s1 = "s\<lparr>adds := remove_nth i (adds s)\<rparr>"
  have 1: "one_drain ?s1" using a by (simp add: one_drain_def)
  have 2: "one_drain (db_add_entry t opn r d now ?s1)"
    using a by (simp add: one_drain_def db_add_entry_def)
  show ?thesis
    using 1 2 one_drain_start_sync [OF 2] by (simp add: add_step_def e Let_def)
qed

lemma one_drain_step: "one_drain s \<Longrightarrow> one_drain (step e s)"
proof (cases e)
  case Online
  assume "one_drain s"
  then have "one_drain (set_online True s)" by (simp add: one_drain_def)
  then show ?thesis unfolding Online by (simp add: one_drain_start_sync)
next
  case Offline
  assume "one_drain s"
  then show ?thesis unfolding Offline by (simp add: one_drain_def)
next
  case CallSync
  assume "one_drain s"
  then show ?thesis unfolding CallSync by (simp add: one_drain_start_sync)
next
  case (CallAdd t opn r d now)
  assume "one_drain s"
  then show ?thesis unfolding CallAdd by (simp add: one_drain_def)
next
  case (AddSettled i ok)
  assume "one_drain s"
  then show ?thesis unfolding AddSettled by (simp add: one_drain_add_step)
next
  case (DrainSettled i ok)
  assume "one_drain s"
  then show ?thesis unfolding DrainSettled by (simp add: one_drain_drain_step)
qed

lemma one_drain_exec: "one_drain s \<Longrightarrow> one_drain (exec es s)"
  by (induction es arbitrary: s) (simp_all add: one_drain_step)

lemma one_drain_init: "one_drain (init_sys online d)"
  by (simp add: one_drain_def init_sys_def)


lemma step_keeps_syncing:
  assumes "isSyncing (engine s)" "\<forall>i ok. e \<noteq> DrainSettled i ok"
  shows "isSyncing (engine (step e s))"
  using assms by (cases e) (auto simp: start_sync_flags add_step_flags)

text \<open>
  C6. In every state the system reaches from the constructor's state, by any sequence of
  events, at most one drain is in flight, and \<open>isSyncing\<close> is true exactly while one is.
  A call of \<open>sync\<close> made while \<open>isSyncing\<close> is true changes nothing: no read of the
  outbox, no remote call, no write. Only a step of the drain in flight can clear
  \<open>isSyncing\<close>, so the flag stays true from the start of a pass to its end.
\<close>

theorem second_sync_is_noop:
  "length (drains (exec es (init_sys online d))) \<le> 1 \<and>
   (isSyncing (engine (exec es (init_sys online d))) \<longleftrightarrow> drains (exec es (init_sys online d)) \<noteq> []) \<and>
   (isSyncing (engine s) \<longrightarrow> step CallSync s = s) \<and>
   (isSyncing (engine w) \<longrightarrow> sync ev w = (Inr (), w)) \<and>
   (isSyncing (engine s) \<and> (\<forall>i ok. e \<noteq> DrainSettled i ok) \<longrightarrow> isSyncing (engine (step e s)))"
proof -
  have "one_drain (exec es (init_sys online d))"
    using one_drain_init by (rule one_drain_exec)
  then show ?thesis
    using step_keeps_syncing [of s e]
    by (simp add: one_drain_def start_sync_def sync_def)
qed

text \<open>A second call of \<open>sync\<close> and an \<open>online\<close> event while the first pass waits for its remote call.\<close>

theorem second_sync_is_noop_witness:
  "drains (exec [Online, DrainSettled 0 True, CallSync, Online] (init_sys False (sample_db [sample_item 1 10 0] 2)))
     = [AwaitRemote (sample_item 1 10 0) []] \<and>
   isSyncing (engine (exec [Online, DrainSettled 0 True] (init_sys False (sample_db [sample_item 1 10 0] 2)))) \<and>
   step CallSync (exec [Online, DrainSettled 0 True] (init_sys False (sample_db [sample_item 1 10 0] 2)))
     = exec [Online, DrainSettled 0 True] (init_sys False (sample_db [sample_item 1 10 0] 2)) \<and>
   calls (exec [Online, DrainSettled 0 True, CallSync, Online] (init_sys False (sample_db [sample_item 1 10 0] 2))) = []"
proof -
  let ?s = "exec [Online, DrainSettled 0 True] (init_sys False (sample_db [sample_item 1 10 0] 2))"
  have sy: "isSyncing (engine ?s)"
    by (simp add: init_sys_def sample_defs start_sync_def drain_step_def continue_def
        wait_at_def queue_snapshot_def set_online_def set_syncing_def)
  have no: "step CallSync ?s = ?s"
    using second_sync_is_noop [of "[]" False "sample_db [] 1" ?s] sy by blast
  have dr: "drains (exec [Online, DrainSettled 0 True, CallSync, Online] (init_sys False (sample_db [sample_item 1 10 0] 2)))
     = [AwaitRemote (sample_item 1 10 0) []]"
    by (simp add: init_sys_def sample_defs start_sync_def drain_step_def continue_def
        wait_at_def queue_snapshot_def set_online_def set_syncing_def)
  have ca: "calls (exec [Online, DrainSettled 0 True, CallSync, Online] (init_sys False (sample_db [sample_item 1 10 0] 2))) = []"
    by (simp add: init_sys_def sample_defs start_sync_def drain_step_def continue_def
        wait_at_def queue_snapshot_def set_online_def set_syncing_def)
  from dr sy no ca show ?thesis by blast
qed

text \<open>
  C7 as stated fails: \<open>handleOffline\<close> only clears \<open>isOnline\<close>. After an \<open>online\<close> event
  has started a drain, an \<open>offline\<close> event leaves \<open>isSyncing\<close> true and \<open>isOnline\<close> false.
\<close>

theorem syncing_while_offline_counterexample:
  "isSyncing (engine (exec [Online, Offline] (init_sys False (sample_db [sample_item 1 10 0] 2)))) \<and>
   \<not> isOnline (engine (exec [Online, Offline] (init_sys False (sample_db [sample_item 1 10 0] 2))))"
  by (simp add: init_sys_def start_sync_def set_online_def set_syncing_def)

text \<open>
  C7, amended. Drain passes are only started when online: a step that turns \<open>isSyncing\<close>
  from false to true leaves \<open>isOnline\<close> true and is not the \<open>offline\<close> event, and a call
  of \<open>sync\<close> while offline changes nothing. \<open>isSyncing\<close> is true while \<open>isOnline\<close> is
  false only when a drain was already in flight and either that was already so before the
  step or the step is the \<open>offline\<close> event.
\<close>

theorem drain_started_only_online:
  "(\<not> isSyncing (engine s) \<and> isSyncing (engine (step e s)) \<longrightarrow>
      isOnline (engine (step e s)) \<and> e \<noteq> Offline) \<and>
   (isSyncing (engine (step e s)) \<and> \<not> isOnline (engine (step e s)) \<longrightarrow>
      isSyncing (engine s) \<and> (\<not> isOnline (engine s) \<or> e = Offline)) \<and>
   (\<not> isOnline (engine s) \<longrightarrow> step CallSync s = s) \<and>
   (\<not> isOnline (engine w) \<longrightarrow> sync ev w = (Inr (), w))"
proof (cases e)
  case (DrainSettled i ok)
  then show ?thesis
    using drain_step_flags [where i = i and ok = ok and s = s]
    by (auto simp: start_sync_def sync_def)
next
  case (AddSettled i ok)
  then show ?thesis
    using add_step_flags [where i = i and ok = ok and s = s]
    by (auto simp: start_sync_def sync_def)
qed (auto simp: start_sync_flags start_sync_def sync_def)

text \<open>The periodic call of \<open>sync\<close>, online and offline.\<close>

theorem drain_started_only_online_witness:
  "\<not> isSyncing (engine (init_sys True (sample_db [sample_item 1 10 0] 2))) \<and>
   isSyncing (engine (step CallSync (init_sys True (sample_db [sample_item 1 10 0] 2)))) \<and>
   isOnline (engine (step CallSync (init_sys True (sample_db [sample_item 1 10 0] 2)))) \<and>
   step CallSync (init_sys False (sample_db [sample_item 1 10 0] 2)) =
     init_sys False (sample_db [sample_item 1 10 0] 2)"
  using drain_started_only_online
    [of "init_sys True (sample_db [sample_item 1 10 0] 2)" CallSync]
    drain_started_only_online
    [of "init_sys False (sample_db [sample_item 1 10 0] 2)" CallSync]
  by (simp add: init_sys_def start_sync_def set_syncing_def)

text \<open>
  On the event loop too, an \<open>addToQueue\<close> whose \<open>add\<close> settles while offline appends its
  row and starts no drain and no remote call.
\<close>

lemma offline_add_settles:
  assumes "\<not> isOnline (engine s)" "i < length (adds s)" "adds s ! i = (t, opn, r, d, now)"
  shows "syncQueue (db (step (AddSettled i True) s)) =
           syncQueue (db s) @ [new_entry (syncQueueKey (db s)) t opn r d now] \<and>
         drains (step (AddSettled i True) s) = drains s \<and>
         calls (step (AddSettled i True) s) = calls s \<and>
         engine (step (AddSettled i True) s) = engine s"
  using assms by (simp add: add_step_def db_add_entry_def Let_def)

section \<open>A pass as a run of the event loop\<close>

lemma exec_append: "exec (es @ es') s = exec es' (exec es s)"
  by (induction es arbitrary: s) simp_all

lemma world_of_simps [simp]:
  "engine (world_of s) = engine s" "db (world_of s) = db s" "calls (world_of s) = calls s"
  by (simp_all add: world_of_def)

lemma sys_with_simps [simp]:
  "engine (sys_with w s) = engine w" "db (sys_with w s) = db w" "calls (sys_with w s) = calls w"
  "drains (sys_with w s) = drains s" "adds (sys_with w s) = adds s"
  by (simp_all add: sys_with_def)

lemma sys_with_world_of [simp]: "sys_with (world_of s) s = s"
  by (simp add: sys_with_def world_of_def)

lemma sys_with_sys_with [simp]: "sys_with w (sys_with w' s) = sys_with w s"
  by (simp add: sys_with_def)

lemma world_of_sys_with [simp]: "world_of (sys_with w s) = w"
  by (simp add: sys_with_def world_of_def)

lemma item_outcomes_go:
  "snd (item_outcomes ev item) = (fst (sync_body ev item w) = Inr ())"
  by (simp add: item_outcomes_def sync_body_def syncItem_def sync_catch_def Let_def)

lemma item_run:
  assumes "drains s = [p]"
  shows "exec (map (DrainSettled 0) (fst (item_outcomes ev item))) (wait_at 0 (AwaitRemote item rest) s) =
         (if snd (item_outcomes ev item)
          then continue 0 rest (sys_with (snd (sync_body ev item (world_of s))) s)
          else finish 0 (sys_with (snd (sync_body ev item (world_of s))) s))"
  using assms
  by (cases rest)
     (simp_all add: item_outcomes_def sync_body_def syncItem_def sync_catch_def Let_def
       drain_step_def wait_at_def continue_def finish_def sys_with_def world_of_def
       db_delete_def db_update_attempts_def set_syncing_def remove_nth_def)


lemma continue_Cons: "continue i (item # rest) s = wait_at i (AwaitRemote item rest) s"
  by (simp add: continue_def)

lemma loop_run:
  "drains s = [p] \<Longrightarrow>
   exec (map (DrainSettled 0) (loop_outcomes ev xs)) (continue 0 xs s) =
   finish 0 (sys_with (snd (sync_loop ev xs (world_of s))) s)"
proof (induction xs arbitrary: s)
  case Nil
  show ?case by (simp add: continue_def)
next
  case (Cons item rest)
  let ?s1 = "sys_with (snd (sync_body ev item (world_of s))) s"
  obtain os go where io: "item_outcomes ev item = (os, go)" by (cases "item_outcomes ev item")
  have go: "go = (fst (sync_body ev item (world_of s)) = Inr ())"
    using item_outcomes_go [of ev item "world_of s"] io by simp
  have run: "exec (map (DrainSettled 0) os) (wait_at 0 (AwaitRemote item rest) s) =
             (if go then continue 0 rest ?s1 else finish 0 ?s1)"
    using item_run [OF Cons.prems, of ev item rest] io by simp
  have d1: "drains ?s1 = [p]" using Cons.prems by simp
  show ?case
  proof (cases go)
    case True
    have "exec (map (DrainSettled 0) (loop_outcomes ev (item # rest))) (continue 0 (item # rest) s) =
          exec (map (DrainSettled 0) (loop_outcomes ev rest)) (continue 0 rest ?s1)"
      using run True by (simp add: io exec_append continue_Cons)
    also have "\<dots> = finish 0 (sys_with (snd (sync_loop ev rest (world_of ?s1))) ?s1)"
      using d1 by (rule Cons.IH)
    also have "\<dots> = finish 0 (sys_with (snd (sync_loop ev (item # rest) (world_of s))) s)"
      using True go by (simp add: sync_loop_step del: sync_loop.simps)
    finally show ?thesis .
  next
    case False
    have "exec (map (DrainSettled 0) (loop_outcomes ev (item # rest))) (continue 0 (item # rest) s) =
          finish 0 ?s1"
      using run False by (simp add: io continue_Cons)
    also have "\<dots> = finish 0 (sys_with (snd (sync_loop ev (item # rest) (world_of s))) s)"
      using False go by (simp add: sync_loop_step del: sync_loop.simps)
    finally show ?thesis .
  qed
qed

text \<open>
  \<open>sync\<close> is the run of one drain on the event loop with no other event in between: from
  a state with nothing in flight, the call of \<open>sync\<close> followed by the settled operations
  of that drain, with the outcomes the environment gives, ends in the state \<open>sync\<close>
  computes, with nothing in flight again.
\<close>

lemma sync_is_uninterrupted_run:
  assumes "drains s = []" "\<not> isSyncing (engine s)" "isOnline (engine s)"
  shows "exec (CallSync # map (DrainSettled 0) (sync_outcomes ev (db s))) s =
         sys_with (snd (sync ev (world_of s))) s"
proof -
  let ?s0 = "(set_syncing True s)\<lparr>drains := [AwaitRead]\<rparr>"
  have st: "step CallSync s = ?s0" using assms by (simp add: start_sync_def)
  have d0: "drains ?s0 = [AwaitRead]" by simp
  have w0: "world_of ?s0 = set_syncing True (world_of s)"
    by (simp add: world_of_def set_syncing_def)
  show ?thesis
  proof (cases "store_throws ev ReadQueue")
    case True
    have "exec (CallSync # map (DrainSettled 0) (sync_outcomes ev (db s))) s = finish 0 ?s0"
      using True st by (simp add: sync_outcomes_def drain_step_def)
    also have "\<dots> = sys_with (snd (sync ev (world_of s))) s"
      using True assms
      by (simp add: sync_def finish_def sys_with_def world_of_def set_syncing_def remove_nth_def)
    finally show ?thesis .
  next
    case False
    have "exec (CallSync # map (DrainSettled 0) (sync_outcomes ev (db s))) s =
          exec (map (DrainSettled 0) (loop_outcomes ev (queue_snapshot (db s))))
            (continue 0 (queue_snapshot (db ?s0)) ?s0)"
      using False st by (simp add: sync_outcomes_def drain_step_def)
    also have "\<dots> = finish 0 (sys_with (snd (sync_loop ev (queue_snapshot (db ?s0)) (world_of ?s0))) ?s0)"
      using loop_run [OF d0, of ev "queue_snapshot (db ?s0)"] by simp
    also have "\<dots> = sys_with (snd (sync ev (world_of s))) s"
      using False assms unfolding w0
      by (simp add: sync_started finish_def sys_with_def set_syncing_def remove_nth_def)
    finally show ?thesis .
  qed
qed

section \<open>A replay the backend refuses\<close>

lemma client_env_simps [simp]:
  "remote_throws (client_env res st) item = (res item = Threw)"
  "store_throws (client_env res st) = st"
  by (simp_all add: client_env_def)

text \<open>
  A call that resolves is a success for the engine, whatever it resolves to: the row is
  deleted, also when the value carries an \<open>error\<close>.
\<close>

lemma resolved_replay_removes_row:
  assumes g: "\<not> isSyncing (engine w)" "isOnline (engine w)"
    and st: "\<forall>x. \<not> st x"
    and mem: "item \<in> set (syncQueue (db w))"
    and res: "res item \<noteq> Threw"
  shows "qid item \<notin> qid ` set (syncQueue (db (snd (sync (client_env res st) w))))"
proof -
  let ?ev = "client_env res st"
  have rd: "\<not> store_throws ?ev ReadQueue" using st by simp
  have s1: "\<forall>k. \<not> store_throws ?ev (UpdateAttempts k)" using st by simp
  have s2: "\<forall>k. \<not> store_throws ?ev (DeleteEvicted k)" using st by simp
  have a: "\<not> remote_throws ?ev item" using res by simp
  have b: "\<not> store_throws ?ev (DeleteSynced (qid item))" using st by simp
  have m: "item \<in> set (queue_snapshot (db w))" using mem by simp
  have "qid item \<notin> qid ` set (syncQueue (db (snd (sync_loop ?ev (queue_snapshot (db w)) (set_syncing True w)))))"
    using s1 s2 a b m by (rule sync_loop_synced)
  then show ?thesis unfolding sync_started [OF g rd] by simp
qed

text \<open>
  C4. The code at the failing input: one row at \<open>attempts = 0\<close> whose request the backend
  refuses, the client resolving to a value with \<open>error\<close> set. The replay failed and the
  attempt count is below the bound, but the pass deletes the row: the outbox is empty
  afterwards, and the row is not kept with a counted attempt. \<open>syncItem\<close> awaits the call
  and drops what it resolves to, where the other callers of the client in the repository
  test \<open>error\<close>. Only for a call that throws is the counter incremented and the row kept
  (\<open>thrown_replay_increments_attempts\<close>).
\<close>

theorem refused_replay_is_deleted_uncounted:
  "replay_failed Resolved_error \<and>
   attempts (sample_item 1 10 0) < 5 \<and>
   syncQueue (db (snd (sync (client_env (\<lambda>i. Resolved_error) (\<lambda>x. False))
      (sample_world True [sample_item 1 10 0] 2)))) = [] \<and>
   calls (snd (sync (client_env (\<lambda>i. Resolved_error) (\<lambda>x. False))
      (sample_world True [sample_item 1 10 0] 2))) =
     [(Upsert ''expenses'' (Some ''groceries''), True)] \<and>
   (sample_item 1 10 0)\<lparr>attempts := 1\<rparr> \<notin>
     set (syncQueue (db (snd (sync (client_env (\<lambda>i. Resolved_error) (\<lambda>x. False))
      (sample_world True [sample_item 1 10 0] 2)))))"
  by (simp add: replay_failed_def client_env_def sample_defs run_defs)

section \<open>The syncing flag over a pass\<close>

lemma sync_try_flags:
  "engine (snd (sync_try ev w1)) = engine w1"
  using sync_loop_frame [of ev "queue_snapshot (db w1)" w1]
  by (simp add: sync_try_def)

lemma sync_by_try:
  "\<not> isSyncing (engine w) \<Longrightarrow> isOnline (engine w) \<Longrightarrow>
   sync ev w = (fst (sync_try ev (set_syncing True w)),
                set_syncing False (snd (sync_try ev (set_syncing True w))))"
  by (cases "sync_loop ev (queue_snapshot (db w)) (set_syncing True w)")
     (simp add: sync_def sync_try_def Let_def)

lemma drain_step_ends:
  assumes "one_drain s" "i < length (drains s)"
  shows "isSyncing (engine s) \<and>
         (isSyncing (engine (step (DrainSettled i ok) s)) \<longleftrightarrow>
            drains (step (DrainSettled i ok) s) \<noteq> [])"
  using assms one_drain_drain_step [OF assms, of ok]
  by (auto simp: one_drain_def)

text \<open>
  C10. A call of \<open>sync\<close> that starts a pass (not syncing, online) raises \<open>isSyncing\<close> and
  clears it when the pass is over, for every behaviour of the remote backend and of the
  local store. The \<open>try\<close> block, entered with the flag raised, ends with the flag still
  raised, whether it ends normally or by an exception of the loop or of the initial read;
  what \<open>sync\<close> returns is that block's outcome, and the state it leaves is that block's
  state with the flag cleared. On the event loop the call raises the flag and puts one
  drain in flight; a drain in flight has the flag raised, and its step leaves the flag
  raised exactly if the drain is still in flight afterwards; the pass run to its end
  without another event is what \<open>sync\<close> computes, with the flag cleared and nothing in
  flight.
\<close>

theorem sync_raises_and_resets_isSyncing:
  "(\<not> isSyncing (engine w) \<and> isOnline (engine w) \<longrightarrow>
      isSyncing (engine (snd (sync_try ev (set_syncing True w)))) \<and>
      sync ev w = (fst (sync_try ev (set_syncing True w)),
                   set_syncing False (snd (sync_try ev (set_syncing True w)))) \<and>
      \<not> isSyncing (engine (snd (sync ev w)))) \<and>
   (\<not> isSyncing (engine s) \<and> isOnline (engine s) \<longrightarrow>
      isSyncing (engine (step CallSync s)) \<and> drains (step CallSync s) = drains s @ [AwaitRead]) \<and>
   (i < length (drains (exec es (init_sys online d))) \<longrightarrow>
      isSyncing (engine (exec es (init_sys online d))) \<and>
      (isSyncing (engine (step (DrainSettled i ok) (exec es (init_sys online d)))) \<longleftrightarrow>
         drains (step (DrainSettled i ok) (exec es (init_sys online d))) \<noteq> [])) \<and>
   (drains s = [] \<and> \<not> isSyncing (engine s) \<and> isOnline (engine s) \<longrightarrow>
      exec (CallSync # map (DrainSettled 0) (sync_outcomes ev (db s))) s =
        sys_with (snd (sync ev (world_of s))) s \<and>
      \<not> isSyncing (engine (exec (CallSync # map (DrainSettled 0) (sync_outcomes ev (db s))) s)) \<and>
      drains (exec (CallSync # map (DrainSettled 0) (sync_outcomes ev (db s))) s) = [])"
proof -
  have a: "isSyncing (engine (snd (sync_try ev (set_syncing True w)))) \<and>
      sync ev w = (fst (sync_try ev (set_syncing True w)),
                   set_syncing False (snd (sync_try ev (set_syncing True w)))) \<and>
      \<not> isSyncing (engine (snd (sync ev w)))"
    if g: "\<not> isSyncing (engine w) \<and> isOnline (engine w)"
  proof -
    have e: "sync ev w = (fst (sync_try ev (set_syncing True w)),
                   set_syncing False (snd (sync_try ev (set_syncing True w))))"
      using g by (simp add: sync_by_try)
    have r: "isSyncing (engine (snd (sync_try ev (set_syncing True w))))"
      by (simp add: sync_try_flags)
    have c: "\<not> isSyncing (engine (snd (sync ev w)))" unfolding e by simp
    from r e c show ?thesis by blast
  qed
  have b: "isSyncing (engine (step CallSync s)) \<and> drains (step CallSync s) = drains s @ [AwaitRead]"
    if "\<not> isSyncing (engine s) \<and> isOnline (engine s)"
    using that by (simp add: start_sync_def)
  have od: "one_drain (exec es (init_sys online d))"
    using one_drain_init by (rule one_drain_exec)
  have c: "isSyncing (engine (exec es (init_sys online d))) \<and>
      (isSyncing (engine (step (DrainSettled i ok) (exec es (init_sys online d)))) \<longleftrightarrow>
         drains (step (DrainSettled i ok) (exec es (init_sys online d))) \<noteq> [])"
    if "i < length (drains (exec es (init_sys online d)))"
    using od that by (rule drain_step_ends)
  have dd: "exec (CallSync # map (DrainSettled 0) (sync_outcomes ev (db s))) s =
        sys_with (snd (sync ev (world_of s))) s \<and>
      \<not> isSyncing (engine (exec (CallSync # map (DrainSettled 0) (sync_outcomes ev (db s))) s)) \<and>
      drains (exec (CallSync # map (DrainSettled 0) (sync_outcomes ev (db s))) s) = []"
    if h: "drains s = [] \<and> \<not> isSyncing (engine s) \<and> isOnline (engine s)"
  proof -
    from h have h1: "drains s = []" and h2: "\<not> isSyncing (engine s)" and h3: "isOnline (engine s)"
      by simp_all
    have run: "exec (CallSync # map (DrainSettled 0) (sync_outcomes ev (db s))) s =
        sys_with (snd (sync ev (world_of s))) s"
      using h1 h2 h3 by (rule sync_is_uninterrupted_run)
    have g: "\<not> isSyncing (engine (world_of s)) \<and> isOnline (engine (world_of s))"
      using h2 h3 by simp
    have "\<not> isSyncing (engine (snd (sync ev (world_of s))))"
      using g by (simp add: sync_by_try)
    then show ?thesis unfolding run using h1 by simp
  qed
  from a b c dd show ?thesis by blast
qed


text \<open>
  A pass in which the update of the attempt counter throws: the promise rejects, the flag
  was raised and is cleared. On the event loop, a drain whose initial read fails.
\<close>

theorem sync_raises_and_resets_isSyncing_witness:
  "\<not> isSyncing (engine (sample_world True [sample_item 1 10 0] 2)) \<and>
   isOnline (engine (sample_world True [sample_item 1 10 0] 2)) \<and>
   fst (sync \<lparr>remote_throws = (\<lambda>i. True), store_throws = (\<lambda>x. x = UpdateAttempts 1)\<rparr>
          (sample_world True [sample_item 1 10 0] 2)) = Inl (StoreError (UpdateAttempts 1)) \<and>
   isSyncing (engine (snd (sync_try \<lparr>remote_throws = (\<lambda>i. True), store_throws = (\<lambda>x. x = UpdateAttempts 1)\<rparr>
          (set_syncing True (sample_world True [sample_item 1 10 0] 2))))) \<and>
   \<not> isSyncing (engine (snd (sync \<lparr>remote_throws = (\<lambda>i. True), store_throws = (\<lambda>x. x = UpdateAttempts 1)\<rparr>
          (sample_world True [sample_item 1 10 0] 2)))) \<and>
   isSyncing (engine (step CallSync (init_sys True (sample_db [sample_item 1 10 0] 2)))) \<and>
   \<not> isSyncing (engine (step (DrainSettled 0 False)
          (exec [CallSync] (init_sys True (sample_db [sample_item 1 10 0] 2)))))"
proof -
  let ?w = "sample_world True [sample_item 1 10 0] 2"
  let ?ev = "\<lparr>remote_throws = (\<lambda>i. True), store_throws = (\<lambda>x. x = UpdateAttempts 1)\<rparr> :: string env"
  let ?s = "init_sys True (sample_db [sample_item 1 10 0] 2)"
  have g: "\<not> isSyncing (engine ?w) \<and> isOnline (engine ?w)" by (simp add: sample_defs)
  have gs: "\<not> isSyncing (engine ?s) \<and> isOnline (engine ?s)" by (simp add: init_sys_def)
  have len: "(0::nat) < length (drains (exec [CallSync] ?s))"
    by (simp add: init_sys_def start_sync_def)
  have ended: "drains (step (DrainSettled 0 False) (exec [CallSync] ?s)) = []"
    by (simp add: init_sys_def start_sync_def drain_step_def finish_def remove_nth_def)
  have res: "fst (sync ?ev ?w) = Inl (StoreError (UpdateAttempts 1))"
    by (simp add: sample_defs run_defs)
  note th = sync_raises_and_resets_isSyncing
    [where w = ?w and ev = ?ev and s = ?s and i = 0 and ok = False and es = "[CallSync]"
       and online = True and d = "sample_db [sample_item 1 10 0] 2"]
  from th g have a: "isSyncing (engine (snd (sync_try ?ev (set_syncing True ?w))))"
    and b: "\<not> isSyncing (engine (snd (sync ?ev ?w)))" by blast+
  from th gs have c: "isSyncing (engine (step CallSync ?s))" by blast
  from th len ended have e: "\<not> isSyncing (engine (step (DrainSettled 0 False) (exec [CallSync] ?s)))"
    by blast
  from g res a b c e show ?thesis by blast
qed


end
